theory Spec2Isabelle
  imports Main "HOL-Library.Word"
begin

unbundle bit_operations_syntax

section \<open>Machine types\<close>

text \<open>
  Go's \<open>byte\<close>, \<open>int32\<close>, \<open>int64\<close> and \<open>uint64\<close> are words of the same width:
  arithmetic wraps, \<open>sint\<close> reads the two's complement value that Go's signed
  comparisons use. A Go \<open>string\<close> and a \<open>[]byte\<close> are both byte sequences.
\<close>

type_synonym byte = "8 word"
type_synonym i32 = "32 word"
type_synonym i64 = "64 word"
type_synonym u64 = "64 word"

text \<open>The bytes of an ASCII literal, for writing paths in examples.\<close>

definition bytes_of :: "string \<Rightarrow> byte list" where
  "bytes_of s = map (\<lambda>c. of_nat (of_char c)) s"

text \<open>\<open>binary.LittleEndian\<close>: the first byte is the least significant.\<close>

fun le_decode :: "byte list \<Rightarrow> 'a::len word" where
  "le_decode [] = 0"
| "le_decode (b # bs) = ucast b OR push_bit 8 (le_decode bs)"

fun le_encode :: "nat \<Rightarrow> 'a::len word \<Rightarrow> byte list" where
  "le_encode 0 w = []"
| "le_encode (Suc n) w = ucast w # le_encode n (drop_bit 8 w)"

section \<open>Errors\<close>

text \<open>
  One constructor for each place where the package returns an error; a wrapping
  \<open>fmt.Errorf("...%w", err)\<close> keeps the wrapped error as its argument. A run-time
  panic of Go (an index or a slice bound out of range) is no returned error: it is the
  separate value \<open>RuntimePanic\<close>.
\<close>

datatype error =
    OpenFailed
  | HeaderReadFailed
  | InvalidChunkCount
  | UnreasonableChunkCount
  | ChunkSizesReadFailed
  | BundleClosed
  | InvalidReadSize
  | ReadOutOfBounds
  | SliceEndOutOfBounds
  | NegativeUncompressedSize
  | NoChunks
  | ChunkCountMismatch
  | NegativeCompressedChunkSize
  | NegativeTargetSize
  | ZeroTargetNonzeroCompressed
  | ZeroCompressedNonzeroTarget
  | SeekFailed
  | ChunkReadFailed
  | OutputBufferTooSmall
  | NoneSizeMismatch
  | OodleFailed
  | OodleWrongLength
  | DirectoriesNotLoaded
  | UnknownNameHashAlgorithm u64
  | ImplicitParseFailed error
  | PathsNotParsed
  | HashFailed error
  | FileNotFound
  | DirectoryDataMissing
  | PathPartIndexReadFailed
  | NameHashFailed error
  | EOF
  | NotNulTerminated
  | SegmentTooLong
  | RuntimePanic

section \<open>Records of the bundle package\<close>

record BundleHeader =
  UncompressedSize :: i32
  CompressedSize :: i32
  HeadSize :: i32
  Compressor :: i32
  Unknown1 :: i32
  UncompressedSizeLong :: i64
  CompressedSizeLong :: i64
  ChunkCount :: i32
  ChunkSize :: i32
  Unknown3 :: i32
  Unknown4 :: i32
  Unknown5 :: i32
  Unknown6 :: i32

definition BundleHeaderSize :: nat where
  "BundleHeaderSize = 60"

definition OodleCompressorNone :: i32 where
  "OodleCompressorNone = 3"

text \<open>
  The records of the index. \<open>IndexBundleRecord.Files\<close> and \<open>ParentIndex\<close> are
  back references that no function below reads; \<open>IndexFileRecord.BundleRecord\<close> is the
  position of the bundle in \<open>Index.Bundles\<close>. Field names that two Go structs share carry
  a suffix here.
\<close>

record IndexBundleRecord =
  Path_b :: "byte list"
  UncompressedSize_b :: i32
  BundleIndex :: nat

record IndexFileRecord =
  PathHash :: u64
  BundleRecord :: nat
  Offset :: i32
  Size :: i32
  Path :: "byte list"

record IndexDirectoryRecord =
  PathHash_d :: u64
  Offset_d :: i32
  Size_d :: i32
  RecursiveSize :: i32

text \<open>
  An opened bundle. \<open>File\<close> is \<open>None\<close> for Go's nil file (closed or never opened) and
  otherwise the content of the file on disk; reads below address it by absolute offset.
  \<open>cachedContent\<close> is \<open>None\<close> for a nil slice.
\<close>

record Bundle =
  File :: "byte list option"
  Header :: BundleHeader
  CompressedChunkSizes :: "i32 list"
  Record :: "IndexBundleRecord option"
  leaveOpen :: bool
  cachedContent :: "byte list option"

text \<open>
  The index. \<open>FilesByPathHash\<close> holds each file record under its key; a write through
  the record pointer is an update of the entry. \<open>DirectoryBundleData\<close> is \<open>None\<close> for
  a nil slice.
\<close>

record Index =
  Bundles :: "IndexBundleRecord list"
  FilesByPathHash :: "u64 \<rightharpoonup> IndexFileRecord"
  Directories :: "IndexDirectoryRecord list"
  DirectoryBundleData :: "byte list option"
  pathsParsed :: bool

section \<open>Path hashing\<close>

text \<open>
  \<open>murmurHash64A\<close> as the source has it: the body is Go's \<open>hash/fnv\<close> \<open>New64\<close>
  (FNV-1: multiply by the prime, then xor the byte), and the seed is not used.
\<close>

definition fnv_offset64 :: u64 where
  "fnv_offset64 = 0xCBF29CE484222325"

definition fnvPrime :: u64 where
  "fnvPrime = 0x100000001B3"

definition murmurHash64A :: "byte list \<Rightarrow> u64 \<Rightarrow> u64" where
  "murmurHash64A data seed = foldl (\<lambda>h c. (h * fnvPrime) XOR ucast c) fnv_offset64 data"

definition fnv1a64Hash :: "byte list \<Rightarrow> u64" where
  "fnv1a64Hash utf8Name =
     (let dataToHash =
            (if utf8Name \<noteq> [] \<and> last utf8Name = 0x2F then butlast utf8Name else utf8Name);
          hash0 = foldl (\<lambda>hash b.
                    let char = (if b \<ge> 0x41 \<and> b \<le> 0x5A then b + (0x61 - 0x41) else b)
                    in (hash XOR ucast char) * fnvPrime) 0xCBF29CE484222325 dataToHash;
          hash1 = (hash0 XOR 0x2B) * fnvPrime;
          hash2 = (hash1 XOR 0x2B) * fnvPrime
      in hash2)"

text \<open>
  \<open>Index.NameHash\<close>. Go's \<open>strings.ToLower\<close> is library code outside the
  repository: it is the parameter \<open>ToLower\<close>.
\<close>

definition NameHash :: "(byte list \<Rightarrow> byte list) \<Rightarrow> Index \<Rightarrow> byte list \<Rightarrow> error + u64" where
  "NameHash ToLower idx path0 =
     (if Directories idx = [] then Inl DirectoriesNotLoaded
      else
        let path = (if path0 \<noteq> [] \<and> last path0 = 0x2F then butlast path0 else path0);
            utf8Path = path;
            magic = PathHash_d (Directories idx ! 0)
        in if magic = 0xF42A94E69CFF42FE then
             Inr (murmurHash64A (ToLower path) 0x1337B33F)
           else if magic = 0x07E47507B4A92E53 then
             Inr (fnv1a64Hash utf8Path)
           else Inl (UnknownNameHashAlgorithm magic))"

text \<open>\<open>strings.ToLower\<close> on ASCII text: only the letters A to Z change.\<close>

definition ascii_lower :: "byte \<Rightarrow> byte" where
  "ascii_lower b = (if 0x41 \<le> b \<and> b \<le> 0x5A then b + 0x20 else b)"

definition ToLower_ascii :: "byte list \<Rightarrow> byte list" where
  "ToLower_ascii s = map ascii_lower s"

subsection \<open>The reference hashes of the specification\<close>

text \<open>
  The custom FNV-1a-64 in the specification's words: strip one trailing slash, lowercase
  ASCII A to Z, fold standard FNV-1a-64 over the bytes, then xor-and-multiply twice more
  with the byte \<open>'+'\<close>.
\<close>

definition strip_trailing_slash :: "byte list \<Rightarrow> byte list" where
  "strip_trailing_slash p = (if p \<noteq> [] \<and> last p = 0x2F then butlast p else p)"

definition fnv1a64_step :: "u64 \<Rightarrow> byte \<Rightarrow> u64" where
  "fnv1a64_step h b = (h XOR ucast b) * 0x100000001B3"

definition fnv1a64_standard :: "byte list \<Rightarrow> u64" where
  "fnv1a64_standard bs = foldl fnv1a64_step 0xCBF29CE484222325 bs"

definition custom_fnv1a64_reference :: "byte list \<Rightarrow> u64" where
  "custom_fnv1a64_reference p =
     fnv1a64_step (fnv1a64_step (fnv1a64_standard (map ascii_lower (strip_trailing_slash p))) 0x2B) 0x2B"

text \<open>
  Canonical MurmurHash64A (Appleby's 64-bit MurmurHash2) in the specification's words:
  \<open>m = 0xc6a4a7935bd1e995\<close>, \<open>r = 47\<close>, eight-byte little-endian blocks, the tail
  bytes mixed in, and the final xor-shift mixing.
\<close>

definition murmur_m :: u64 where
  "murmur_m = 0xc6a4a7935bd1e995"

definition murmur_block :: "u64 \<Rightarrow> u64 \<Rightarrow> u64" where
  "murmur_block h k0 =
     (let k1 = k0 * murmur_m;
          k2 = k1 XOR drop_bit 47 k1;
          k3 = k2 * murmur_m
      in (h XOR k3) * murmur_m)"

fun murmur_blocks :: "u64 \<Rightarrow> byte list \<Rightarrow> u64" where
  "murmur_blocks h (b0 # b1 # b2 # b3 # b4 # b5 # b6 # b7 # rest) =
     murmur_blocks (murmur_block h (le_decode [b0, b1, b2, b3, b4, b5, b6, b7])) rest"
| "murmur_blocks h tail =
     (if tail = [] then h else (h XOR le_decode tail) * murmur_m)"

definition MurmurHash64A_reference :: "byte list \<Rightarrow> u64 \<Rightarrow> u64" where
  "MurmurHash64A_reference data seed =
     (let h0 = seed XOR (of_nat (length data) * murmur_m);
          h1 = murmur_blocks h0 data;
          h2 = h1 XOR drop_bit 47 h1;
          h3 = h2 * murmur_m
      in h3 XOR drop_bit 47 h3)"

section \<open>The bundle codec\<close>

text \<open>
  \<open>binary.Read\<close> of the 60 header bytes into \<open>BundleHeader\<close>: the fields in
  declaration order, little-endian, without padding.
\<close>

definition parse_header :: "byte list \<Rightarrow> BundleHeader" where
  "parse_header bs =
     \<lparr> UncompressedSize = le_decode (take 4 bs),
       CompressedSize = le_decode (take 4 (drop 4 bs)),
       HeadSize = le_decode (take 4 (drop 8 bs)),
       Compressor = le_decode (take 4 (drop 12 bs)),
       Unknown1 = le_decode (take 4 (drop 16 bs)),
       UncompressedSizeLong = le_decode (take 8 (drop 20 bs)),
       CompressedSizeLong = le_decode (take 8 (drop 28 bs)),
       ChunkCount = le_decode (take 4 (drop 36 bs)),
       ChunkSize = le_decode (take 4 (drop 40 bs)),
       Unknown3 = le_decode (take 4 (drop 44 bs)),
       Unknown4 = le_decode (take 4 (drop 48 bs)),
       Unknown5 = le_decode (take 4 (drop 52 bs)),
       Unknown6 = le_decode (take 4 (drop 56 bs)) \<rparr>"

text \<open>\<open>binary.Read\<close> of \<open>n\<close> little-endian \<open>int32\<close> values.\<close>

fun read_i32s :: "nat \<Rightarrow> byte list \<Rightarrow> i32 list" where
  "read_i32s 0 bs = []"
| "read_i32s (Suc n) bs = le_decode (take 4 bs) # read_i32s n (drop 4 bs)"

text \<open>
  \<open>OpenBundleFile\<close>. The first argument is what \<open>os.Open\<close> finds at the path:
  \<open>None\<close> when the open fails, otherwise the content of the file. The record argument
  is Go's record pointer (\<open>None\<close> for nil); the function writes the header's
  uncompressed size through it before it validates anything, so the record is returned too.
\<close>

definition OpenBundleFile ::
  "byte list option \<Rightarrow> IndexBundleRecord option \<Rightarrow> bool
     \<Rightarrow> IndexBundleRecord option \<times> (error + Bundle)" where
  "OpenBundleFile file record leaveOpen' =
     (case file of
        None \<Rightarrow> (record, Inl OpenFailed)
      | Some f \<Rightarrow>
          if length f < BundleHeaderSize then (record, Inl HeaderReadFailed)
          else
            let h = parse_header (take BundleHeaderSize f);
                record' = map_option (\<lambda>r. r\<lparr>UncompressedSize_b := UncompressedSize h\<rparr>) record
            in if sint (ChunkCount h) < 0 then (record', Inl InvalidChunkCount)
               else if sint (ChunkCount h) > 1000000 then (record', Inl UnreasonableChunkCount)
               else if sint (ChunkCount h) > 0
                       \<and> length f < BundleHeaderSize + 4 * nat (sint (ChunkCount h))
                 then (record', Inl ChunkSizesReadFailed)
               else (record',
                     Inr \<lparr> File = Some f, Header = h,
                           CompressedChunkSizes =
                             read_i32s (nat (sint (ChunkCount h))) (drop BundleHeaderSize f),
                           Record = record', leaveOpen = leaveOpen',
                           cachedContent = None \<rparr>))"

definition GetLastChunkUncompressedSize :: "BundleHeader \<Rightarrow> i32" where
  "GetLastChunkUncompressedSize h =
     (if ChunkCount h = 0 then 0
      else UncompressedSize h - (ChunkSize h * (ChunkCount h - 1)))"

text \<open>
  Go's \<open>copy(dst[lo:hi], src)\<close>: as many bytes as the shorter of the two holds.
\<close>

definition copy_into :: "byte list \<Rightarrow> nat \<Rightarrow> nat \<Rightarrow> byte list \<Rightarrow> byte list" where
  "copy_into dst lo hi src =
     (let n = min (hi - lo) (length src) in take lo dst @ take n src @ drop (lo + n) dst)"

text \<open>
  The body of the chunk loop of \<open>ReadFull\<close>, for chunk \<open>i\<close>: the error, or the file
  offset, the output offset and the output buffer after the chunk (Go's \<open>continue\<close>
  for an empty chunk included). The counter stays below the chunk count, so it cannot
  wrap; the sizes are \<open>int32\<close> and wrap as in Go; the file offset is Go's \<open>int64\<close>,
  far from its range here. \<open>oodle.Decompress\<close> is the parameter \<open>oodle\<close> (\<open>None\<close>
  for its error). Slicing the output buffer with a bound out of range is Go's panic.
\<close>

definition ReadFull_chunk ::
  "(byte list \<Rightarrow> int \<Rightarrow> byte list option) \<Rightarrow> byte list \<Rightarrow> BundleHeader \<Rightarrow> i32 list
     \<Rightarrow> nat \<Rightarrow> int \<Rightarrow> i32 \<Rightarrow> byte list \<Rightarrow> error + (int \<times> i32 \<times> byte list)" where
  "ReadFull_chunk oodle f h sizes i currentChunkDataFileOffset outputBufferOffset decompressedData =
     (if \<not> i < length sizes then Inl RuntimePanic
      else
        let compressedChunkSize = sizes ! i;
            uncompressedChunkTargetSize =
              (if (of_nat i :: i32) = ChunkCount h - 1 then GetLastChunkUncompressedSize h
               else ChunkSize h)
        in
        if sint compressedChunkSize < 0 then Inl NegativeCompressedChunkSize
        else if sint uncompressedChunkTargetSize < 0 then Inl NegativeTargetSize
        else if uncompressedChunkTargetSize = 0 \<and> compressedChunkSize \<noteq> 0
          then Inl ZeroTargetNonzeroCompressed
        else if uncompressedChunkTargetSize = 0 \<and> compressedChunkSize = 0
          then Inr (currentChunkDataFileOffset + sint compressedChunkSize,
                    outputBufferOffset, decompressedData)
        else if compressedChunkSize = 0 \<and> uncompressedChunkTargetSize \<noteq> 0
          then Inl ZeroCompressedNonzeroTarget
        else if currentChunkDataFileOffset < 0 then Inl SeekFailed
        else if int (length f) < currentChunkDataFileOffset + sint compressedChunkSize
          then Inl ChunkReadFailed
        else
          let compressedChunkBuffer =
                take (nat (sint compressedChunkSize)) (drop (nat currentChunkDataFileOffset) f)
          in
          if sint (outputBufferOffset + uncompressedChunkTargetSize)
               > sint (of_nat (length decompressedData) :: i32)
            then Inl OutputBufferTooSmall
          else if sint outputBufferOffset < 0
                  \<or> sint (outputBufferOffset + uncompressedChunkTargetSize) < sint outputBufferOffset
                  \<or> int (length decompressedData)
                       < sint (outputBufferOffset + uncompressedChunkTargetSize)
            then Inl RuntimePanic
          else if Compressor h = OodleCompressorNone then
            (if compressedChunkSize \<noteq> uncompressedChunkTargetSize then Inl NoneSizeMismatch
             else Inr (currentChunkDataFileOffset + sint compressedChunkSize,
                       outputBufferOffset + uncompressedChunkTargetSize,
                       copy_into decompressedData (nat (sint outputBufferOffset))
                         (nat (sint (outputBufferOffset + uncompressedChunkTargetSize)))
                         compressedChunkBuffer))
          else
            (case oodle compressedChunkBuffer (sint uncompressedChunkTargetSize) of
               None \<Rightarrow> Inl OodleFailed
             | Some decompressedChunk \<Rightarrow>
                 if int (length decompressedChunk) \<noteq> sint uncompressedChunkTargetSize
                   then Inl OodleWrongLength
                 else Inr (currentChunkDataFileOffset + sint compressedChunkSize,
                           outputBufferOffset + uncompressedChunkTargetSize,
                           copy_into decompressedData (nat (sint outputBufferOffset))
                             (nat (sint (outputBufferOffset + uncompressedChunkTargetSize)))
                             decompressedChunk)))"

text \<open>The chunk loop of \<open>ReadFull\<close>, from chunk \<open>i\<close> on.\<close>

function ReadFull_loop ::
  "(byte list \<Rightarrow> int \<Rightarrow> byte list option) \<Rightarrow> byte list \<Rightarrow> BundleHeader \<Rightarrow> i32 list
     \<Rightarrow> nat \<Rightarrow> int \<Rightarrow> i32 \<Rightarrow> byte list \<Rightarrow> error + byte list" where
  "ReadFull_loop oodle f h sizes i currentChunkDataFileOffset outputBufferOffset decompressedData =
     (if int i < sint (ChunkCount h) then
        (case ReadFull_chunk oodle f h sizes i currentChunkDataFileOffset outputBufferOffset
                decompressedData of
           Inl e \<Rightarrow> Inl e
         | Inr (fileOffset', outputOffset', data') \<Rightarrow>
             ReadFull_loop oodle f h sizes (Suc i) fileOffset' outputOffset' data')
      else Inr decompressedData)"
  by pat_completeness auto
termination
  by (relation "measure (\<lambda>(oodle, f, h, sizes, i, off, out_off, out). nat (sint (ChunkCount h) - int i))")
    auto

declare ReadFull_loop.simps [simp del]

text \<open>
  \<open>Bundle.ReadFull\<close>: the result and the bundle afterwards (the cache is filled on
  success). The first chunk's file offset is computed in \<open>int32\<close> and then widened.
\<close>

definition ReadFull ::
  "(byte list \<Rightarrow> int \<Rightarrow> byte list option) \<Rightarrow> Bundle \<Rightarrow> (error + byte list) \<times> Bundle" where
  "ReadFull oodle b =
     (case File b of
        None \<Rightarrow> (Inl BundleClosed, b)
      | Some f \<Rightarrow>
          if UncompressedSize (Header b) = 0 then (Inr [], b)
          else if sint (UncompressedSize (Header b)) < 0 then (Inl NegativeUncompressedSize, b)
          else
            (case cachedContent b of
               Some c \<Rightarrow> (Inr c, b)
             | None \<Rightarrow>
                 let decompressedData =
                       replicate (nat (sint (UncompressedSize (Header b)))) (0 :: byte)
                 in
                 if ChunkCount (Header b) = 0 \<and> sint (UncompressedSize (Header b)) > 0
                   then (Inl NoChunks, b)
                 else if sint (ChunkCount (Header b)) > 0
                         \<and> int (length (CompressedChunkSizes b)) \<noteq> sint (ChunkCount (Header b))
                   then (Inl ChunkCountMismatch, b)
                 else
                   let firstChunkDataOffset =
                         sint (of_nat BundleHeaderSize + ChunkCount (Header b) * 4 :: i32)
                   in
                   (case ReadFull_loop oodle f (Header b) (CompressedChunkSizes b) 0
                           firstChunkDataOffset 0 decompressedData of
                      Inl e \<Rightarrow> (Inl e, b)
                    | Inr data \<Rightarrow> (Inr data, b\<lparr>cachedContent := Some data\<rparr>))))"

text \<open>
  \<open>Bundle.ReadAt\<close>. The sum \<open>offsetInBundle + sizeInBundle\<close> is an \<open>int32\<close> sum
  and wraps; slicing the data with a high bound below the low bound is Go's panic.
\<close>

definition ReadAt ::
  "(byte list \<Rightarrow> int \<Rightarrow> byte list option) \<Rightarrow> Bundle \<Rightarrow> i32 \<Rightarrow> i32
     \<Rightarrow> (error + byte list) \<times> Bundle" where
  "ReadAt oodle b offsetInBundle sizeInBundle =
     (case File b of
        None \<Rightarrow> (Inl BundleClosed, b)
      | Some f \<Rightarrow>
          if sizeInBundle = 0 then (Inr [], b)
          else if sint sizeInBundle < 0 then (Inl InvalidReadSize, b)
          else if sint offsetInBundle < 0
                  \<or> sint (offsetInBundle + sizeInBundle) > sint (UncompressedSize (Header b))
            then (Inl ReadOutOfBounds, b)
          else
            (case ReadFull oodle b of
               (Inl e, b') \<Rightarrow> (Inl e, b')
             | (Inr fullData, b') \<Rightarrow>
                 if sint (offsetInBundle + sizeInBundle) > int (length fullData)
                   then (Inl SliceEndOutOfBounds, b')
                 else if sint (offsetInBundle + sizeInBundle) < sint offsetInBundle
                   then (Inl RuntimePanic, b')
                 else (Inr (take (nat (sint (offsetInBundle + sizeInBundle)) - nat (sint offsetInBundle))
                              (drop (nat (sint offsetInBundle)) fullData)), b')))"

text \<open>
  The invariant of the cache: a cached content has as many bytes as the header's
  uncompressed size says. \<open>OpenBundleFile\<close> leaves the cache empty and \<open>ReadFull\<close>
  fills it with a buffer of that length.
\<close>

definition cache_ok :: "Bundle \<Rightarrow> bool" where
  "cache_ok b =
     (case cachedContent b of None \<Rightarrow> True
      | Some c \<Rightarrow> int (length c) = sint (UncompressedSize (Header b)))"

section \<open>The index: path dictionary and lookup\<close>

text \<open>
  \<open>readNullTerminatedString\<close> on what is left of the reader: the segment and the
  rest after its NUL byte, or the error. \<open>buf\<close> is the buffer collected so far.
\<close>

fun readNullTerminatedString_loop :: "byte list \<Rightarrow> byte list \<Rightarrow> error + (byte list \<times> byte list)" where
  "readNullTerminatedString_loop [] buf = (if buf \<noteq> [] then Inl NotNulTerminated else Inl EOF)"
| "readNullTerminatedString_loop (b # r) buf =
     (if b = 0 then Inr (buf, r)
      else let buf' = buf @ [b]
           in if length buf' > 2048 then Inl SegmentTooLong
              else readNullTerminatedString_loop r buf')"

definition readNullTerminatedString :: "byte list \<Rightarrow> error + (byte list \<times> byte list)" where
  "readNullTerminatedString r = readNullTerminatedString_loop r []"

text \<open>\<open>binary.Read\<close> of one little-endian \<open>int32\<close> from the reader.\<close>

definition read_i32 :: "byte list \<Rightarrow> (i32 \<times> byte list) option" where
  "read_i32 r = (if length r < 4 then None else Some (le_decode (take 4 r), drop 4 r))"

text \<open>
  What \<open>ParsePaths\<close> does with a candidate path, at both places where it emits one:
  hash it, and either write the path into the record found under the hash or count a
  failure. The result is the error (if \<open>NameHash\<close> fails), the failure count and the index.
\<close>

definition resolve_path ::
  "(byte list \<Rightarrow> byte list) \<Rightarrow> byte list \<Rightarrow> nat \<Rightarrow> Index \<Rightarrow> error option \<times> nat \<times> Index" where
  "resolve_path ToLower fullPathBytes failed idx =
     (case NameHash ToLower idx fullPathBytes of
        Inl hashErr \<Rightarrow> (Some (NameHashFailed hashErr), failed, idx)
      | Inr hash \<Rightarrow>
          (case FilesByPathHash idx hash of
             Some fileRec \<Rightarrow>
               (None, failed,
                idx\<lparr>FilesByPathHash := (FilesByPathHash idx)(hash \<mapsto> fileRec\<lparr>Path := fullPathBytes\<rparr>)\<rparr>)
           | None \<Rightarrow> (None, Suc failed, idx)))"

lemma readNullTerminatedString_loop_shorter:
  "readNullTerminatedString_loop r buf = Inr (seg, r') \<Longrightarrow> length r' < length r"
  by (induction r buf rule: readNullTerminatedString_loop.induct)
     (auto simp: Let_def split: if_splits)

lemma readNullTerminatedString_shorter:
  "readNullTerminatedString r = Inr (seg, r') \<Longrightarrow> length r' < length r"
  unfolding readNullTerminatedString_def by (rule readNullTerminatedString_loop_shorter)

text \<open>
  One turn of the command loop of \<open>ParsePaths\<close> over a directory block, with at least
  one byte left in the block reader \<open>r\<close>. \<open>Inl\<close> ends the loop: Go's \<open>break\<close> (no
  error) or its \<open>return\<close> with an error; \<open>Inr\<close> is the state for the next turn. A
  decremented index below zero passes the comparison with the number of segments and then
  indexes the segment list out of range: Go's panic.
\<close>

definition parse_command ::
  "(byte list \<Rightarrow> byte list) \<Rightarrow> byte list \<Rightarrow> byte list list \<Rightarrow> bool \<Rightarrow> nat \<Rightarrow> Index
     \<Rightarrow> (error option \<times> nat \<times> Index) + (byte list \<times> byte list list \<times> bool \<times> nat \<times> Index)" where
  "parse_command ToLower r tempSegments isBase failed idx =
     (if length r < 4 then Inl (None, failed, idx)
      else
        (case read_i32 r of
           None \<Rightarrow> Inl (Some PathPartIndexReadFailed, failed, idx)
         | Some (pathPartIndex0, r1) \<Rightarrow>
             if pathPartIndex0 = 0 then
               (let isBase' = (\<not> isBase);
                    tempSegments' = (if isBase' then [] else tempSegments)
                in Inr (r1, tempSegments', isBase', failed, idx))
             else
               (let pathPartIndex = pathPartIndex0 - 1 in
                case readNullTerminatedString r1 of
                  Inl err \<Rightarrow> Inl (None, failed, idx)
                | Inr (segment, r2) \<Rightarrow>
                    if sint pathPartIndex < sint (of_nat (length tempSegments) :: i32) then
                      (if sint pathPartIndex < 0
                            \<or> \<not> nat (sint pathPartIndex) < length tempSegments
                         then Inl (Some RuntimePanic, failed, idx)
                       else
                         let newSegment = tempSegments ! nat (sint pathPartIndex) @ segment;
                             tempSegments' = tempSegments[nat (sint pathPartIndex) := newSegment]
                         in if \<not> isBase then
                              (case resolve_path ToLower newSegment failed idx of
                                 (Some e, failed', idx') \<Rightarrow> Inl (Some e, failed', idx')
                               | (None, failed', idx') \<Rightarrow>
                                   Inr (r2, tempSegments', isBase, failed', idx'))
                            else Inr (r2, tempSegments', isBase, failed, idx))
                    else if isBase then
                      Inr (r2, tempSegments @ [segment], isBase, failed, idx)
                    else
                      (case resolve_path ToLower segment failed idx of
                         (Some e, failed', idx') \<Rightarrow> Inl (Some e, failed', idx')
                       | (None, failed', idx') \<Rightarrow>
                           Inr (r2, tempSegments, isBase, failed', idx')))))"

lemma parse_command_shorter:
  assumes "parse_command ToLower r tempSegments isBase failed idx
             = Inr (r', tempSegments', isBase', failed', idx')"
  shows "length r' < length r"
proof -
  have len: "4 \<le> length r"
    using assms by (auto simp: parse_command_def split: if_splits)
  obtain k r1 where rd: "read_i32 r = Some (k, r1)" and r1: "length r1 < length r"
    using len by (auto simp: read_i32_def)
  show ?thesis
  proof (cases "k = 0")
    case True
    with assms len rd r1 show ?thesis
      by (auto simp: parse_command_def Let_def)
  next
    case False
    with assms len rd obtain segment r2 where s: "readNullTerminatedString r1 = Inr (segment, r2)"
      and r2: "r' = r2"
      by (auto simp: parse_command_def Let_def split: sum.splits if_splits prod.splits option.splits)
    from readNullTerminatedString_shorter [OF s] r1 r2 show ?thesis by simp
  qed
qed

text \<open>The command loop of \<open>ParsePaths\<close> over one directory block.\<close>

function parse_block ::
  "(byte list \<Rightarrow> byte list) \<Rightarrow> byte list \<Rightarrow> byte list list \<Rightarrow> bool \<Rightarrow> nat \<Rightarrow> Index
     \<Rightarrow> error option \<times> nat \<times> Index" where
  "parse_block ToLower r tempSegments isBase failed idx =
     (if length r > 0 then
        (case parse_command ToLower r tempSegments isBase failed idx of
           Inl result \<Rightarrow> result
         | Inr (r', tempSegments', isBase', failed', idx') \<Rightarrow>
             parse_block ToLower r' tempSegments' isBase' failed' idx')
      else (None, failed, idx))"
  by pat_completeness auto
termination
  by (relation "measure (\<lambda>(ToLower, r, tempSegments, isBase, failed, idx). length r)")
     (auto dest: parse_command_shorter)

declare parse_block.simps [simp del]

text \<open>
  The loop of \<open>ParsePaths\<close> over the directory records. A record whose offset is
  negative or whose end lies beyond the data is skipped; the end \<open>Offset + Size\<close> is an
  \<open>int32\<close> sum, and a block whose end lies before its start is Go's slicing panic.
\<close>

fun parse_dirs ::
  "(byte list \<Rightarrow> byte list) \<Rightarrow> IndexDirectoryRecord list \<Rightarrow> byte list \<Rightarrow> nat \<Rightarrow> Index
     \<Rightarrow> error option \<times> nat \<times> Index" where
  "parse_dirs ToLower [] dirData failed idx = (None, failed, idx)"
| "parse_dirs ToLower (d # ds) dirData failed idx =
     (if sint (Offset_d d) < 0 \<or> sint (Offset_d d + Size_d d) > int (length dirData)
        then parse_dirs ToLower ds dirData failed idx
      else if sint (Offset_d d + Size_d d) < sint (Offset_d d)
        then (Some RuntimePanic, failed, idx)
      else
        let block = take (nat (sint (Offset_d d + Size_d d)) - nat (sint (Offset_d d)))
                      (drop (nat (sint (Offset_d d))) dirData)
        in (case parse_block ToLower block [] False failed idx of
              (Some e, failed', idx') \<Rightarrow> (Some e, failed', idx')
            | (None, failed', idx') \<Rightarrow> parse_dirs ToLower ds dirData failed' idx'))"

text \<open>
  \<open>Index.ParsePaths\<close>: Go's two results \<open>(failedCount, err)\<close> and the index afterwards.
\<close>

definition ParsePaths ::
  "(byte list \<Rightarrow> byte list) \<Rightarrow> Index \<Rightarrow> (nat \<times> error option) \<times> Index" where
  "ParsePaths ToLower idx =
     (if pathsParsed idx then ((0, None), idx)
      else if DirectoryBundleData idx = None \<or> length (Directories idx) = 0
        then ((0, Some DirectoryDataMissing), idx\<lparr>pathsParsed := True\<rparr>)
      else
        (case parse_dirs ToLower (Directories idx) (the (DirectoryBundleData idx)) 0 idx of
           (Some e, failed, idx') \<Rightarrow> ((failed, Some e), idx')
         | (None, failed, idx') \<Rightarrow> ((failed, None), idx'\<lparr>pathsParsed := True\<rparr>)))"




section \<open>Example data\<close>

text \<open>
  The uncompressed two-chunk bundle of the package's test \<open>TestBundle_ReadFull_OodleNone\<close>:
  150 bytes in chunks of 100, the bytes of \<open>'A'\<close> and of \<open>'B'\<close>. The head size is a
  parameter; the test writes 56.
\<close>

definition scenario3_file :: "i32 \<Rightarrow> byte list" where
  "scenario3_file head_size =
     le_encode 4 (150 :: i32) @ le_encode 4 (150 :: i32) @ le_encode 4 head_size
     @ le_encode 4 (3 :: i32) @ le_encode 4 (1 :: i32)
     @ le_encode 8 (150 :: i64) @ le_encode 8 (150 :: i64)
     @ le_encode 4 (2 :: i32) @ le_encode 4 (100 :: i32)
     @ le_encode 4 (0 :: i32) @ le_encode 4 (0 :: i32) @ le_encode 4 (0 :: i32) @ le_encode 4 (0 :: i32)
     @ le_encode 4 (100 :: i32) @ le_encode 4 (50 :: i32)
     @ replicate 100 0x41 @ replicate 50 0x42"

definition scenario3_bundle :: "i32 \<Rightarrow> Bundle" where
  "scenario3_bundle head_size =
     \<lparr> File = Some (scenario3_file head_size),
       Header = \<lparr> UncompressedSize = 150, CompressedSize = 150, HeadSize = head_size,
                  Compressor = 3, Unknown1 = 1, UncompressedSizeLong = 150,
                  CompressedSizeLong = 150, ChunkCount = 2, ChunkSize = 100,
                  Unknown3 = 0, Unknown4 = 0, Unknown5 = 0, Unknown6 = 0 \<rparr>,
       CompressedChunkSizes = [100, 50], Record = None, leaveOpen = False,
       cachedContent = None \<rparr>"

text \<open>
  The file of that bundle with the four bytes of the uncompressed size set to 0xFF (the
  size reads as -1), and the bundle that \<open>OpenBundleFile\<close> makes of it.
\<close>

definition negative_size_file :: "byte list" where
  "negative_size_file = (scenario3_file 56)[0 := 0xFF, 1 := 0xFF, 2 := 0xFF, 3 := 0xFF]"

definition negative_size_bundle :: Bundle where
  "negative_size_bundle =
     (scenario3_bundle 56)\<lparr>File := Some negative_size_file,
                           Header := (Header (scenario3_bundle 56))\<lparr>UncompressedSize := - 1\<rparr>\<rparr>"

text \<open>
  The same bundle with 40 as the stored compressed size of the second chunk, whose
  uncompressed target is 50.
\<close>

definition mismatched_bundle :: Bundle where
  "mismatched_bundle = (scenario3_bundle 56)\<lparr>CompressedChunkSizes := [100, 40]\<rparr>"

text \<open>
  A bundle file whose header has uncompressed size 0 and one chunk, with 5 as the stored
  compressed size of the chunk, and the bundle that \<open>OpenBundleFile\<close> makes of it.
\<close>

definition zero_size_file :: "byte list" where
  "zero_size_file =
     le_encode 4 (0 :: i32) @ le_encode 4 (5 :: i32) @ le_encode 4 (52 :: i32)
     @ le_encode 4 (3 :: i32) @ le_encode 4 (1 :: i32)
     @ le_encode 8 (0 :: i64) @ le_encode 8 (5 :: i64)
     @ le_encode 4 (1 :: i32) @ le_encode 4 (100 :: i32)
     @ le_encode 4 (0 :: i32) @ le_encode 4 (0 :: i32) @ le_encode 4 (0 :: i32) @ le_encode 4 (0 :: i32)
     @ le_encode 4 (5 :: i32)
     @ replicate 5 0x41"

definition zero_size_bundle :: Bundle where
  "zero_size_bundle =
     \<lparr> File = Some zero_size_file,
       Header = \<lparr> UncompressedSize = 0, CompressedSize = 5, HeadSize = 52,
                  Compressor = 3, Unknown1 = 1, UncompressedSizeLong = 0,
                  CompressedSizeLong = 5, ChunkCount = 1, ChunkSize = 100,
                  Unknown3 = 0, Unknown4 = 0, Unknown5 = 0, Unknown6 = 0 \<rparr>,
       CompressedChunkSizes = [5], Record = None, leaveOpen = False,
       cachedContent = None \<rparr>"

text \<open>An Oodle library that fails on every call, as the missing DLL does.\<close>

definition no_oodle :: "byte list \<Rightarrow> int \<Rightarrow> byte list option" where
  "no_oodle buf n = None"

text \<open>
  Two small indexes, one for each hash discriminator. The dictionary of \<open>fnv_index\<close>
  holds, in one block: the base segment \<open>d/\<close>, the leaf \<open>f\<close> under it (the path
  \<open>d/f\<close>, whose custom FNV-1a-64 is the key of the one file record) and the leaf \<open>x\<close>
  without a base.
\<close>

definition murmur_index :: Index where
  "murmur_index =
     \<lparr> Bundles = [], FilesByPathHash = Map.empty,
       Directories = [\<lparr> PathHash_d = 0xF42A94E69CFF42FE, Offset_d = 0, Size_d = 0,
                        RecursiveSize = 0 \<rparr>],
       DirectoryBundleData = Some [], pathsParsed = False \<rparr>"

definition example_dictionary :: "byte list" where
  "example_dictionary =
     [0, 0, 0, 0,
      1, 0, 0, 0, 0x64, 0x2F, 0,
      0, 0, 0, 0,
      1, 0, 0, 0, 0x66, 0,
      2, 0, 0, 0, 0x78, 0]"

definition example_file_record :: IndexFileRecord where
  "example_file_record =
     \<lparr> PathHash = 0xC1808CBE73EFD844, BundleRecord = 0, Offset = 0, Size = 5, Path = [] \<rparr>"

definition fnv_index :: Index where
  "fnv_index =
     \<lparr> Bundles = [\<lparr> Path_b = bytes_of ''Bundle0'', UncompressedSize_b = 150, BundleIndex = 0 \<rparr>],
       FilesByPathHash = [0xC1808CBE73EFD844 \<mapsto> example_file_record],
       Directories = [\<lparr> PathHash_d = 0x07E47507B4A92E53, Offset_d = 0, Size_d = 27,
                        RecursiveSize = 27 \<rparr>],
       DirectoryBundleData = Some example_dictionary, pathsParsed = False \<rparr>"



section \<open>The custom FNV-1a-64 against its reference\<close>

lemma fnv_fold_lower:
  "foldl (\<lambda>hash b.
      (hash XOR ucast (if b \<ge> 0x41 \<and> b \<le> 0x5A then b + (0x61 - 0x41) else b)) * fnvPrime)
      h (bs :: byte list)
   = foldl fnv1a64_step h (map ascii_lower bs)"
  by (induction bs arbitrary: h) (simp_all add: fnv1a64_step_def ascii_lower_def fnvPrime_def)

text \<open>
  C4. For every byte string the custom FNV-1a-64 of the source equals the reference
  definition: at most one trailing slash stripped, ASCII A to Z lowercased, standard
  FNV-1a-64 folded over the bytes, and two more xor-and-multiply rounds with the byte 0x2B.
\<close>

theorem fnv1a64Hash_refines_reference:
  "fnv1a64Hash p = custom_fnv1a64_reference p"
  unfolding fnv1a64Hash_def Let_def fnv_fold_lower
  by (simp add: custom_fnv1a64_reference_def fnv1a64_standard_def
      strip_trailing_slash_def fnv1a64_step_def fnvPrime_def)

section \<open>The bundle codec: opening and reading\<close>

lemma sint_add_i32:
  "- (2 ^ 31) \<le> sint a + sint b \<Longrightarrow> sint a + sint b < 2 ^ 31 \<Longrightarrow> sint (a + b :: i32) = sint a + sint b"
  by (simp add: sint_word_ariths signed_take_bit_int_eq_self)

lemma sint_of_nat_i32: "n < 2 ^ 31 \<Longrightarrow> sint (of_nat n :: i32) = int n"
  by (simp add: signed_of_nat signed_take_bit_int_eq_self)

lemma length_copy_into:
  "lo \<le> hi \<Longrightarrow> hi \<le> length dst \<Longrightarrow> length (copy_into dst lo hi src) = length dst"
  by (auto simp: copy_into_def Let_def min_def)

lemma length_copy_into_int:
  "a \<le> b \<Longrightarrow> b \<le> int (length dst) \<Longrightarrow> length (copy_into dst (nat a) (nat b) src) = length dst"
  by (rule length_copy_into) auto

lemma ReadFull_chunk_length:
  assumes "ReadFull_chunk oodle f h sizes i off ooff out = Inr (off', ooff', out')"
  shows "length out' = length out"
  using assms unfolding ReadFull_chunk_def Let_def
  by (auto split: if_splits option.splits simp: length_copy_into_int)

lemma ReadFull_loop_length:
  "ReadFull_loop oodle f h sizes i off ooff out = Inr data \<Longrightarrow> length data = length out"
proof (induction oodle f h sizes i off ooff out rule: ReadFull_loop.induct)
  case (1 oodle f h sizes i off ooff out)
  show ?case
  proof (cases "int i < sint (ChunkCount h)")
    case False
    with "1.prems" show ?thesis by (simp add: ReadFull_loop.simps)
  next
    case True
    with "1.prems" obtain off' ooff' out' where
      st: "ReadFull_chunk oodle f h sizes i off ooff out = Inr (off', ooff', out')"
      and rest: "ReadFull_loop oodle f h sizes (Suc i) off' ooff' out' = Inr data"
      by (subst (asm) ReadFull_loop.simps) (auto split: sum.splits)
    from "1.IH" [OF True st refl refl rest] ReadFull_chunk_length [OF st]
    show ?thesis by simp
  qed
qed

lemma ReadFull_length:
  assumes "ReadFull oodle b = (Inr data, b')" "cache_ok b"
  shows "int (length data) = sint (UncompressedSize (Header b))"
  using assms
  by (auto simp: ReadFull_def cache_ok_def Let_def dest!: ReadFull_loop_length
      split: option.splits if_splits sum.splits)

text \<open>
  The invariant holds for every bundle that \<open>OpenBundleFile\<close> returns, and \<open>ReadFull\<close>
  keeps it.
\<close>

lemma OpenBundleFile_cache_ok:
  "OpenBundleFile file r lo = (r', Inr b) \<Longrightarrow> cache_ok b \<and> File b = file \<and> file \<noteq> None"
  by (auto simp: OpenBundleFile_def cache_ok_def Let_def split: option.splits if_splits)

lemma ReadFull_cache_ok:
  assumes "cache_ok b" "ReadFull oodle b = (res, b')"
  shows "cache_ok b' \<and> File b' = File b \<and> Header b' = Header b"
proof (cases res)
  case (Inl e)
  with assms show ?thesis
    by (auto simp: ReadFull_def Let_def split: option.splits if_splits sum.splits)
next
  case (Inr data)
  with assms ReadFull_length [of oodle b data b'] show ?thesis
    by (auto simp: ReadFull_def Let_def cache_ok_def split: option.splits if_splits sum.splits)
qed

lemma opened_scenario3:
  "OpenBundleFile (Some (scenario3_file 56)) None False = (None, Inr (scenario3_bundle 56))"
  by code_simp

lemma cache_ok_scenario3: "cache_ok (scenario3_bundle hs)"
  by (simp add: cache_ok_def scenario3_bundle_def)

lemma scenario3_ReadFull:
  "fst (ReadFull no_oodle (scenario3_bundle 56)) = Inr (replicate 100 0x41 @ replicate 50 0x42)"
  by code_simp

lemma ChunkCount_parse_header:
  "ChunkCount (parse_header (take BundleHeaderSize f)) = le_decode (take 4 (drop 24 (drop 12 f)))"
  by (simp add: parse_header_def BundleHeaderSize_def drop_take)

lemma opened_scenario3_head47:
  "OpenBundleFile (Some (scenario3_file 47)) None False = (None, Inr (scenario3_bundle 47))"
  by code_simp

lemma opened_negative_size:
  "OpenBundleFile (Some negative_size_file) None False = (None, Inr negative_size_bundle)"
  by code_simp

lemma OpenBundleFile_Inr:
  assumes "OpenBundleFile (Some f) r lo = (r', Inr b)"
  shows "File b = Some f \<and> Header b = parse_header (take BundleHeaderSize f)"
  using assms by (auto simp: OpenBundleFile_def Let_def split: if_splits)

text \<open>
  C2, as the claim states it, fails: \<open>OpenBundleFile\<close> looks neither at the head size
  nor at the uncompressed size. The two-chunk bundle of the test with head size 47 (the
  chunk count is 2, so the claim asks for 56) opens, and \<open>ReadFull\<close> then returns its
  150 bytes; and the same file with uncompressed size -1 opens too.
\<close>

theorem OpenBundleFile_unchecked_fields_counterexample:
  "HeadSize (parse_header (take BundleHeaderSize (scenario3_file 47))) = 47
   \<and> ChunkCount (parse_header (take BundleHeaderSize (scenario3_file 47))) = 2
   \<and> OpenBundleFile (Some (scenario3_file 47)) None False = (None, Inr (scenario3_bundle 47))
   \<and> fst (ReadFull no_oodle (scenario3_bundle 47)) = Inr (replicate 100 0x41 @ replicate 50 0x42)
   \<and> UncompressedSize (parse_header (take BundleHeaderSize negative_size_file)) = - 1
   \<and> OpenBundleFile (Some negative_size_file) None False = (None, Inr negative_size_bundle)"
  by code_simp

text \<open>
  C2, amended. Opening a file whose header has a chunk count below 0 or above 1000000
  fails, on the header alone. Neither the head size nor the uncompressed size is
  validated by opening: whether opening fails depends on neither field, and every file
  that holds the header and the chunk-size table of a chunk count from 0 to 1000000
  opens. A negative uncompressed size is rejected by \<open>ReadFull\<close>: on the bundle opened
  from such a file, and on any open bundle with such a header.
\<close>

theorem OpenBundleFile_validation:
  "(BundleHeaderSize \<le> length f \<and> sint (ChunkCount (parse_header (take BundleHeaderSize f))) < 0
      \<longrightarrow> snd (OpenBundleFile (Some f) r lo) = Inl InvalidChunkCount)
   \<and> (BundleHeaderSize \<le> length f \<and> 1000000 < sint (ChunkCount (parse_header (take BundleHeaderSize f)))
      \<longrightarrow> snd (OpenBundleFile (Some f) r lo) = Inl UnreasonableChunkCount)
   \<and> (take 8 f = take 8 f' \<and> drop 12 f = drop 12 f' \<and> length f = length f'
      \<longrightarrow> isl (snd (OpenBundleFile (Some f) r lo))
            = isl (snd (OpenBundleFile (Some f') r lo)))
   \<and> (File b \<noteq> None \<and> sint (UncompressedSize (Header b)) < 0
      \<longrightarrow> ReadFull oodle b = (Inl NegativeUncompressedSize, b))
   \<and> (drop 4 f = drop 4 f' \<and> length f = length f'
      \<longrightarrow> isl (snd (OpenBundleFile (Some f) r lo))
            = isl (snd (OpenBundleFile (Some f') r lo)))
   \<and> (0 \<le> sint (ChunkCount (parse_header (take BundleHeaderSize f)))
       \<and> sint (ChunkCount (parse_header (take BundleHeaderSize f))) \<le> 1000000
       \<and> BundleHeaderSize + 4 * nat (sint (ChunkCount (parse_header (take BundleHeaderSize f))))
            \<le> length f
      \<longrightarrow> (\<exists>opened. snd (OpenBundleFile (Some f) r lo) = Inr opened
                      \<and> File opened = Some f
                      \<and> Header opened = parse_header (take BundleHeaderSize f)))
   \<and> (OpenBundleFile (Some f) r lo = (r', Inr opened)
       \<and> sint (UncompressedSize (parse_header (take BundleHeaderSize f))) < 0
      \<longrightarrow> ReadFull oodle opened = (Inl NegativeUncompressedSize, opened))"
proof (intro conjI impI)
  assume "BundleHeaderSize \<le> length f \<and> sint (ChunkCount (parse_header (take BundleHeaderSize f))) < 0"
  then show "snd (OpenBundleFile (Some f) r lo) = Inl InvalidChunkCount"
    by (simp add: OpenBundleFile_def Let_def)
next
  assume "BundleHeaderSize \<le> length f \<and> 1000000 < sint (ChunkCount (parse_header (take BundleHeaderSize f)))"
  then show "snd (OpenBundleFile (Some f) r lo) = Inl UnreasonableChunkCount"
    by (simp add: OpenBundleFile_def Let_def)
next
  assume h: "take 8 f = take 8 f' \<and> drop 12 f = drop 12 f' \<and> length f = length f'"
  then have "ChunkCount (parse_header (take BundleHeaderSize f))
               = ChunkCount (parse_header (take BundleHeaderSize f'))"
    by (simp only: ChunkCount_parse_header)
  with h show "isl (snd (OpenBundleFile (Some f) r lo))
            = isl (snd (OpenBundleFile (Some f') r lo))"
    by (simp add: OpenBundleFile_def Let_def)
next
  assume "File b \<noteq> None \<and> sint (UncompressedSize (Header b)) < 0"
  then show "ReadFull oodle b = (Inl NegativeUncompressedSize, b)"
    by (auto simp: ReadFull_def split: option.splits)
next
  assume h: "drop 4 f = drop 4 f' \<and> length f = length f'"
  then have "drop 8 (drop 4 f) = drop 8 (drop 4 f')" by simp
  then have "drop 12 f = drop 12 f'" by simp
  then have "ChunkCount (parse_header (take BundleHeaderSize f))
               = ChunkCount (parse_header (take BundleHeaderSize f'))"
    by (simp only: ChunkCount_parse_header)
  with h show "isl (snd (OpenBundleFile (Some f) r lo))
            = isl (snd (OpenBundleFile (Some f') r lo))"
    by (simp add: OpenBundleFile_def Let_def)
next
  assume "0 \<le> sint (ChunkCount (parse_header (take BundleHeaderSize f)))
       \<and> sint (ChunkCount (parse_header (take BundleHeaderSize f))) \<le> 1000000
       \<and> BundleHeaderSize + 4 * nat (sint (ChunkCount (parse_header (take BundleHeaderSize f))))
            \<le> length f"
  then show "\<exists>opened. snd (OpenBundleFile (Some f) r lo) = Inr opened
                      \<and> File opened = Some f
                      \<and> Header opened = parse_header (take BundleHeaderSize f)"
    by (simp add: OpenBundleFile_def Let_def)
next
  assume h: "OpenBundleFile (Some f) r lo = (r', Inr opened)
       \<and> sint (UncompressedSize (parse_header (take BundleHeaderSize f))) < 0"
  with OpenBundleFile_Inr [of f r lo r' opened]
  show "ReadFull oodle opened = (Inl NegativeUncompressedSize, opened)"
    by (auto simp: ReadFull_def split: option.splits)
qed

theorem OpenBundleFile_validation_witness:
  "snd (OpenBundleFile (Some ((scenario3_file 56)[39 := 0x80])) None False) = Inl InvalidChunkCount
   \<and> snd (OpenBundleFile (Some ((scenario3_file 56)[38 := 0x10])) None False) = Inl UnreasonableChunkCount
   \<and> isl (snd (OpenBundleFile (Some (scenario3_file 56)) None False))
       = isl (snd (OpenBundleFile (Some (scenario3_file 47)) None False))
   \<and> \<not> isl (snd (OpenBundleFile (Some (scenario3_file 47)) None False))
   \<and> isl (snd (OpenBundleFile (Some (scenario3_file 56)) None False))
       = isl (snd (OpenBundleFile (Some negative_size_file) None False))
   \<and> sint (UncompressedSize (parse_header (take BundleHeaderSize negative_size_file))) < 0
   \<and> OpenBundleFile (Some negative_size_file) None False = (None, Inr negative_size_bundle)
   \<and> ReadFull no_oodle negative_size_bundle = (Inl NegativeUncompressedSize, negative_size_bundle)"
proof -
  have a: "BundleHeaderSize \<le> length ((scenario3_file 56)[39 := 0x80])
           \<and> sint (ChunkCount (parse_header (take BundleHeaderSize ((scenario3_file 56)[39 := 0x80])))) < 0"
    by code_simp
  have b: "BundleHeaderSize \<le> length ((scenario3_file 56)[38 := 0x10])
           \<and> 1000000 < sint (ChunkCount (parse_header (take BundleHeaderSize ((scenario3_file 56)[38 := 0x10]))))"
    by code_simp
  have c: "take 8 (scenario3_file 56) = take 8 (scenario3_file 47)
           \<and> drop 12 (scenario3_file 56) = drop 12 (scenario3_file 47)
           \<and> length (scenario3_file 56) = length (scenario3_file 47)"
    by code_simp
  have d: "File negative_size_bundle \<noteq> None
           \<and> sint (UncompressedSize (Header negative_size_bundle)) < 0"
    by (simp add: negative_size_bundle_def scenario3_bundle_def)
  have e: "\<not> isl (snd (OpenBundleFile (Some (scenario3_file 47)) None False))"
    by (simp add: opened_scenario3_head47)
  have g: "drop 4 (scenario3_file 56) = drop 4 negative_size_file
           \<and> length (scenario3_file 56) = length negative_size_file"
    by code_simp
  have k: "0 \<le> sint (ChunkCount (parse_header (take BundleHeaderSize negative_size_file)))
       \<and> sint (ChunkCount (parse_header (take BundleHeaderSize negative_size_file))) \<le> 1000000
       \<and> BundleHeaderSize
            + 4 * nat (sint (ChunkCount (parse_header (take BundleHeaderSize negative_size_file))))
            \<le> length negative_size_file"
    by code_simp
  have m: "sint (UncompressedSize (parse_header (take BundleHeaderSize negative_size_file))) < 0"
    by code_simp
  note o = opened_negative_size
  have i1: "snd (OpenBundleFile (Some ((scenario3_file 56)[39 := 0x80])) None False)
              = Inl InvalidChunkCount"
    using OpenBundleFile_validation [where f = "(scenario3_file 56)[39 := 0x80]"
        and r = None and lo = False] a by blast
  have i2: "snd (OpenBundleFile (Some ((scenario3_file 56)[38 := 0x10])) None False)
              = Inl UnreasonableChunkCount"
    using OpenBundleFile_validation [where f = "(scenario3_file 56)[38 := 0x10]"
        and r = None and lo = False] b by blast
  have i3: "isl (snd (OpenBundleFile (Some (scenario3_file 56)) None False))
       = isl (snd (OpenBundleFile (Some (scenario3_file 47)) None False))"
    using OpenBundleFile_validation [where f = "scenario3_file 56" and f' = "scenario3_file 47"
        and r = None and lo = False] c by blast
  have i4: "isl (snd (OpenBundleFile (Some (scenario3_file 56)) None False))
       = isl (snd (OpenBundleFile (Some negative_size_file) None False))"
    using OpenBundleFile_validation [where f = "scenario3_file 56" and f' = negative_size_file
        and r = None and lo = False] g by blast
  have i5: "\<exists>opened. snd (OpenBundleFile (Some negative_size_file) None False) = Inr opened"
    using OpenBundleFile_validation [where f = negative_size_file and r = None and lo = False] k
    by blast
  have i6: "ReadFull no_oodle negative_size_bundle
              = (Inl NegativeUncompressedSize, negative_size_bundle)"
    using OpenBundleFile_validation [where f = negative_size_file and r = None and lo = False
        and r' = None and opened = negative_size_bundle and oodle = no_oodle] o m by blast
  show ?thesis using i1 i2 i3 i4 i5 i6 e m o by blast
qed

subsection \<open>ReadFull on an uncompressed bundle\<close>

lemma of_nat_i32_eq_iff:
  "a < 2 ^ 31 \<Longrightarrow> b < 2 ^ 31 \<Longrightarrow> (of_nat a :: i32) = of_nat b \<longleftrightarrow> a = b"
  by (metis sint_of_nat_i32 of_nat_eq_iff)

lemma length_concat_uniform:
  "\<forall>c \<in> set xs. int (length c) = k \<Longrightarrow> int (length (concat xs)) = int (length xs) * k"
  by (induction xs) (simp_all add: algebra_simps)

lemma ReadFull_chunk_none_copy:
  assumes i: "i < length sizes" and sz: "sizes ! i = of_nat m"
    and tg: "(if (of_nat i :: i32) = ChunkCount h - 1 then GetLastChunkUncompressedSize h
             else ChunkSize h) = of_nat m"
    and comp: "Compressor h = OodleCompressorNone"
    and off: "0 \<le> off" "off + int m \<le> int (length f)"
    and len: "length out < 2 ^ 31" and fit: "s + m \<le> length out"
  shows "ReadFull_chunk oodle f h sizes i off (of_nat s) out
           = Inr (off + int m, of_nat (s + m),
                  if m = 0 then out else copy_into out s (s + m) (take m (drop (nat off) f)))"
proof -
  have m: "sint (of_nat m :: i32) = int m" and s: "sint (of_nat s :: i32) = int s"
    and sm: "sint (of_nat s + of_nat m :: i32) = int s + int m"
    and l: "sint (of_nat (length out) :: i32) = int (length out)"
    using len fit sint_of_nat_i32 [of m] sint_of_nat_i32 [of s] sint_of_nat_i32 [of "s + m"]
      sint_of_nat_i32 [of "length out"] by simp_all
  have z: "(of_nat m :: i32) = 0 \<longleftrightarrow> m = 0"
    using m by (metis of_nat_0 of_nat_eq_0_iff sint_0 semiring_1_class.of_nat_0)
  show ?thesis
  proof (cases "m = 0")
    case True
    with i sz tg show ?thesis
      unfolding ReadFull_chunk_def Let_def by simp
  next
    case False
    with i sz tg comp off fit m s sm l z show ?thesis
      unfolding ReadFull_chunk_def Let_def by (simp add: nat_add_distrib)
  qed
qed

lemma ReadFull_chunk_Inr_none:
  "ReadFull_chunk oodle f h sizes i off ooff out = Inr st \<Longrightarrow>
   Compressor h = OodleCompressorNone \<Longrightarrow>
   sizes ! i = (if (of_nat i :: i32) = ChunkCount h - 1 then GetLastChunkUncompressedSize h
                else ChunkSize h)"
  unfolding ReadFull_chunk_def Let_def
  by (simp split: if_splits)

lemma chunk_target_none:
  fixes chunks :: "byte list list"
  assumes cc: "ChunkCount h = of_nat (length chunks)" and n: "length chunks < 2 ^ 31"
    and U: "UncompressedSize h = of_nat (length (concat chunks))"
    and cs: "\<forall>c \<in> set (butlast chunks). int (length c) = sint (ChunkSize h)"
    and i: "i < length chunks"
  shows "(if (of_nat i :: i32) = ChunkCount h - 1 then GetLastChunkUncompressedSize h
          else ChunkSize h) = of_nat (length (chunks ! i))"
proof -
  have ne: "chunks \<noteq> []" using i by auto
  have pred: "ChunkCount h - 1 = of_nat (length chunks - 1)"
    using i cc by (simp add: of_nat_diff)
  have last_iff: "(of_nat i :: i32) = ChunkCount h - 1 \<longleftrightarrow> i = length chunks - 1"
    unfolding pred using i n by (intro of_nat_i32_eq_iff) auto
  show ?thesis
  proof (cases "i = length chunks - 1")
    case True
    have nz: "ChunkCount h \<noteq> 0"
    proof
      assume "ChunkCount h = 0"
      then have "(of_nat (length chunks) :: i32) = of_nat 0" using cc by simp
      then have "length chunks = 0" using n by (subst (asm) of_nat_i32_eq_iff) auto
      with ne show False by simp
    qed
    have split: "chunks = butlast chunks @ [chunks ! i]"
      using ne True by (metis append_butlast_last_id last_conv_nth)
    have "int (length (concat chunks))
            = int (length (concat (butlast chunks))) + int (length (chunks ! i))"
      by (subst split) simp
    also have "int (length (concat (butlast chunks))) = int (length chunks - 1) * sint (ChunkSize h)"
      using length_concat_uniform [OF cs] by simp
    finally have "(of_int (int (length (concat chunks))) :: i32)
        = of_int (int (length chunks - 1) * sint (ChunkSize h) + int (length (chunks ! i)))"
      by simp
    then have "(of_nat (length (concat chunks)) :: i32)
        = of_nat (length chunks - 1) * ChunkSize h + of_nat (length (chunks ! i))"
      by simp
    with True last_iff nz pred U show ?thesis
      by (simp add: GetLastChunkUncompressedSize_def)
  next
    case False
    with i have "i < length (butlast chunks)" by simp
    then have "chunks ! i \<in> set (butlast chunks)"
      by (metis nth_butlast nth_mem)
    with cs have "int (length (chunks ! i)) = sint (ChunkSize h)" by blast
    then have "(of_int (int (length (chunks ! i))) :: i32) = of_int (sint (ChunkSize h))" by simp
    then have "(of_nat (length (chunks ! i)) :: i32) = ChunkSize h" by simp
    with False last_iff show ?thesis by simp
  qed
qed

lemma length_concat_take_Suc:
  "i < length chunks \<Longrightarrow>
   length (concat (take (Suc i) chunks)) = length (concat (take i chunks)) + length (chunks ! i)"
  by (simp add: take_Suc_conv_app_nth)

lemma length_concat_take_le:
  "length (concat (take i chunks)) \<le> length (concat chunks)"
proof -
  have "concat chunks = concat (take i chunks) @ concat (drop i chunks)"
    by (metis append_take_drop_id concat_append)
  then show ?thesis by (metis le_add1 length_append)
qed

lemma chunk_in_file:
  assumes "i < length chunks"
  shows "take (length (chunks ! i)) (drop (length pre + length (concat (take i chunks))) (pre @ concat chunks))
           = chunks ! i"
proof -
  have "concat chunks = concat (take i chunks) @ chunks ! i @ concat (drop (Suc i) chunks)"
    using assms by (metis concat.simps(2) concat_append id_take_nth_drop)
  then have "pre @ concat chunks
               = (pre @ concat (take i chunks)) @ chunks ! i @ concat (drop (Suc i) chunks)"
    by simp
  then show ?thesis
    by (metis append_eq_conv_conj length_append)
qed

lemma ReadFull_loop_none:
  fixes chunks :: "byte list list"
  assumes cc: "ChunkCount h = of_nat (length chunks)" and n: "length chunks < 2 ^ 31"
    and L: "length (concat chunks) < 2 ^ 31"
    and U: "UncompressedSize h = of_nat (length (concat chunks))"
    and comp: "Compressor h = OodleCompressorNone"
    and cs: "\<forall>c \<in> set (butlast chunks). int (length c) = sint (ChunkSize h)"
  shows "i \<le> length chunks \<Longrightarrow>
         ReadFull_loop oodle (pre @ concat chunks) h (map (\<lambda>c. of_nat (length c)) chunks) i
           (int (length pre) + int (length (concat (take i chunks))))
           (of_nat (length (concat (take i chunks))))
           (concat (take i chunks)
              @ replicate (length (concat chunks) - length (concat (take i chunks))) 0)
         = Inr (concat chunks)"
proof (induction "length chunks - i" arbitrary: i)
  case 0
  then have i: "i = length chunks" by simp
  have "sint (ChunkCount h) = int (length chunks)"
    using cc n by (simp add: sint_of_nat_i32)
  with i show ?case by (simp add: ReadFull_loop.simps)
next
  case (Suc k)
  then have i: "i < length chunks" by simp
  define S where "S = length (concat (take i chunks))"
  define m where "m = length (chunks ! i)"
  define out where "out = concat (take i chunks) @ replicate (length (concat chunks) - S) (0 :: byte)"
  have S': "length (concat (take (Suc i) chunks)) = S + m"
    using length_concat_take_Suc [OF i] by (simp add: S_def m_def)
  have le: "S + m \<le> length (concat chunks)"
    using length_concat_take_le [of "Suc i" chunks] S' by simp
  have lout: "length out = length (concat chunks)"
    using le by (simp add: out_def S_def)
  have cnt: "int i < sint (ChunkCount h)"
    using cc n i by (simp add: sint_of_nat_i32)
  have step: "ReadFull_chunk oodle (pre @ concat chunks) h (map (\<lambda>c. of_nat (length c)) chunks) i
                (int (length pre) + int S) (of_nat S) out
              = Inr (int (length pre) + int S + int m, of_nat (S + m),
                     if m = 0 then out
                     else copy_into out S (S + m)
                            (take m (drop (nat (int (length pre) + int S)) (pre @ concat chunks))))"
  proof (rule ReadFull_chunk_none_copy)
    show "i < length (map (\<lambda>c. of_nat (length c) :: i32) chunks)" using i by simp
    show "map (\<lambda>c. of_nat (length c) :: i32) chunks ! i = of_nat m" using i by (simp add: m_def)
    show "(if (of_nat i :: i32) = ChunkCount h - 1 then GetLastChunkUncompressedSize h
           else ChunkSize h) = of_nat m"
      unfolding m_def by (rule chunk_target_none [OF cc n U cs i])
    show "Compressor h = OodleCompressorNone" by (rule comp)
    show "0 \<le> int (length pre) + int S" by simp
    show "int (length pre) + int S + int m \<le> int (length (pre @ concat chunks))" using le by simp
    show "length out < 2 ^ 31" using lout L by simp
    show "S + m \<le> length out" using le lout by simp
  qed
  have buf: "take m (drop (nat (int (length pre) + int S)) (pre @ concat chunks)) = chunks ! i"
    using chunk_in_file [OF i, of pre] by (simp add: S_def m_def nat_add_distrib)
  have out': "(if m = 0 then out
               else copy_into out S (S + m)
                      (take m (drop (nat (int (length pre) + int S)) (pre @ concat chunks))))
              = concat (take (Suc i) chunks)
                  @ replicate (length (concat chunks) - length (concat (take (Suc i) chunks))) 0"
  proof (cases "m = 0")
    case True
    then show ?thesis
      using i S' by (simp add: out_def take_Suc_conv_app_nth m_def S_def)
  next
    case False
    have "copy_into out S (S + m) (chunks ! i)
            = concat (take i chunks) @ chunks ! i @ replicate (length (concat chunks) - (S + m)) 0"
      by (simp add: copy_into_def out_def S_def m_def)
    with False buf S' i show ?thesis
      by (simp add: take_Suc_conv_app_nth)
  qed
  have "ReadFull_loop oodle (pre @ concat chunks) h (map (\<lambda>c. of_nat (length c)) chunks) (Suc i)
           (int (length pre) + int (length (concat (take (Suc i) chunks))))
           (of_nat (length (concat (take (Suc i) chunks))))
           (concat (take (Suc i) chunks)
              @ replicate (length (concat chunks) - length (concat (take (Suc i) chunks))) 0)
         = Inr (concat chunks)"
    using Suc.hyps(2) i by (intro Suc.hyps(1)) auto
  with cnt step out' S' show ?case
    by (subst ReadFull_loop.simps) (simp add: S_def [symmetric] out_def [symmetric] add.assoc)
qed

lemma ReadFull_chunk_returns_no_panic:
  assumes i: "i < length sizes"
    and lo: "0 \<le> sint ooff" and hi: "sint ooff \<le> int (length out)"
    and len: "length out < 2 ^ 31"
    and cs: "int (length out) + sint (ChunkSize h) < 2 ^ 31"
    and gl: "int (length out) + sint (GetLastChunkUncompressedSize h) < 2 ^ 31"
  shows "ReadFull_chunk oodle f h sizes i off ooff out \<noteq> Inl RuntimePanic
         \<and> (\<forall>off' ooff' out'. ReadFull_chunk oodle f h sizes i off ooff out = Inr (off', ooff', out')
              \<longrightarrow> 0 \<le> sint ooff' \<and> sint ooff' \<le> int (length out') \<and> length out' = length out)"
proof -
  define t where "t = (if (of_nat i :: i32) = ChunkCount h - 1 then GetLastChunkUncompressedSize h
                       else ChunkSize h)"
  have l: "sint (of_nat (length out) :: i32) = int (length out)"
    using len by (rule sint_of_nat_i32)
  have tb: "int (length out) + sint t < 2 ^ 31"
    using cs gl by (simp add: t_def)
  have sum: "0 \<le> sint t \<Longrightarrow> sint (ooff + t) = sint ooff + sint t"
    using lo hi tb by (intro sint_add_i32) auto
  have A: "ReadFull_chunk oodle f h sizes i off ooff out \<noteq> Inl RuntimePanic"
    using i lo hi l sum unfolding ReadFull_chunk_def Let_def t_def [symmetric]
    by (auto split: option.splits)
  have B: "0 \<le> sint ooff' \<and> sint ooff' \<le> int (length out') \<and> length out' = length out"
    if st: "ReadFull_chunk oodle f h sizes i off ooff out = Inr (off', ooff', out')"
    for off' ooff' out'
  proof -
    have len': "length out' = length out" by (rule ReadFull_chunk_length [OF st])
    have "ooff' = ooff \<or> (0 \<le> sint t \<and> ooff' = ooff + t
                             \<and> \<not> sint (of_nat (length out) :: i32) < sint (ooff + t))"
      using st i unfolding ReadFull_chunk_def Let_def t_def [symmetric]
      by (auto split: option.splits if_splits)
    with lo hi l sum len' show ?thesis by auto
  qed
  from A B show ?thesis by blast
qed

lemma ReadFull_loop_mismatch_error:
  assumes comp: "Compressor h = OodleCompressorNone"
    and i: "int i < sint (ChunkCount h)"
    and sz: "int (length sizes) = sint (ChunkCount h)"
    and ne: "sizes ! i \<noteq> (if (of_nat i :: i32) = ChunkCount h - 1
                            then GetLastChunkUncompressedSize h else ChunkSize h)"
    and len: "n < 2 ^ 31"
    and cs: "int n + sint (ChunkSize h) < 2 ^ 31"
    and gl: "int n + sint (GetLastChunkUncompressedSize h) < 2 ^ 31"
  shows "j \<le> i \<Longrightarrow> length out = n \<Longrightarrow> 0 \<le> sint ooff \<Longrightarrow> sint ooff \<le> int n \<Longrightarrow>
         \<exists>e. ReadFull_loop oodle f h sizes j off ooff out = Inl e \<and> e \<noteq> RuntimePanic"
proof (induction "i - j" arbitrary: j off ooff out)
  case 0
  then have j: "j = i" by simp
  have jl: "i < length sizes" using i sz by simp
  note np = ReadFull_chunk_returns_no_panic [of i sizes ooff out h oodle f off, OF jl]
  show ?case
  proof (cases "ReadFull_chunk oodle f h sizes i off ooff out")
    case (Inl e)
    moreover have "e \<noteq> RuntimePanic"
      using np Inl "0.prems" len cs gl by auto
    ultimately show ?thesis using i j by (subst ReadFull_loop.simps) simp
  next
    case (Inr st)
    from ReadFull_chunk_Inr_none [OF Inr comp] ne show ?thesis by simp
  qed
next
  case (Suc k)
  then have j: "j < i" by simp
  with i have cnt: "int j < sint (ChunkCount h)" by simp
  have jl: "j < length sizes" using cnt sz by simp
  note np = ReadFull_chunk_returns_no_panic [of j sizes ooff out h oodle f off, OF jl]
  show ?case
  proof (cases "ReadFull_chunk oodle f h sizes j off ooff out")
    case (Inl e)
    moreover have "e \<noteq> RuntimePanic"
      using np Inl Suc.prems len cs gl by auto
    ultimately show ?thesis using cnt by (subst ReadFull_loop.simps) simp
  next
    case (Inr st)
    obtain off' ooff' out' where st: "st = (off', ooff', out')" by (cases st) auto
    have inv: "0 \<le> sint ooff' \<and> sint ooff' \<le> int (length out') \<and> length out' = length out"
      using np Inr st Suc.prems len cs gl by auto
    have "\<exists>e. ReadFull_loop oodle f h sizes (Suc j) off' ooff' out' = Inl e \<and> e \<noteq> RuntimePanic"
      using Suc.hyps(2) j inv Suc.prems by (intro Suc.hyps(1)) auto
    with cnt Inr st show ?thesis by (subst ReadFull_loop.simps) simp
  qed
qed

lemma ReadFull_mismatch_error:
  assumes h: "File b \<noteq> None \<and> cachedContent b = None
      \<and> Compressor (Header b) = OodleCompressorNone
      \<and> UncompressedSize (Header b) \<noteq> 0
      \<and> int i < sint (ChunkCount (Header b))
      \<and> CompressedChunkSizes b ! i
           \<noteq> (if (of_nat i :: i32) = ChunkCount (Header b) - 1
               then GetLastChunkUncompressedSize (Header b) else ChunkSize (Header b))
      \<and> sint (UncompressedSize (Header b)) + sint (ChunkSize (Header b)) < 2 ^ 31
      \<and> sint (UncompressedSize (Header b)) + sint (GetLastChunkUncompressedSize (Header b)) < 2 ^ 31"
  shows "\<exists>e. fst (ReadFull oodle b) = Inl e \<and> e \<noteq> RuntimePanic"
proof -
  from h obtain f where f: "File b = Some f" by auto
  show ?thesis
  proof (cases "sint (UncompressedSize (Header b)) < 0")
    case True
    with h f show ?thesis by (simp add: ReadFull_def)
  next
    case nonneg: False
    have cnz: "ChunkCount (Header b) \<noteq> 0" "0 < sint (ChunkCount (Header b))"
      using h by auto
    show ?thesis
    proof (cases "int (length (CompressedChunkSizes b)) = sint (ChunkCount (Header b))")
      case False
      with h f nonneg cnz show ?thesis by (simp add: ReadFull_def Let_def)
    next
      case True
      define n where "n = nat (sint (UncompressedSize (Header b)))"
      have n: "int n = sint (UncompressedSize (Header b))" using nonneg by (simp add: n_def)
      have nb: "n < 2 ^ 31"
        using sint_lt [of "UncompressedSize (Header b)"] n by simp
      have "\<exists>e. ReadFull_loop oodle f (Header b) (CompressedChunkSizes b) 0
                   (sint (of_nat BundleHeaderSize + ChunkCount (Header b) * 4 :: i32)) 0
                   (replicate n 0) = Inl e \<and> e \<noteq> RuntimePanic"
        using h True n nb
        by (intro ReadFull_loop_mismatch_error [where i = i and n = n]) auto
      then obtain e where
        "ReadFull_loop oodle f (Header b) (CompressedChunkSizes b) 0
           (sint (of_nat BundleHeaderSize + ChunkCount (Header b) * 4 :: i32)) 0
           (replicate n 0) = Inl e" "e \<noteq> RuntimePanic"
        by blast
      with h f nonneg cnz True show ?thesis
        by (auto simp: ReadFull_def Let_def n_def)
    qed
  qed
qed

text \<open>
  C3, as the claim states it, fails in its second half: \<open>ReadFull\<close> returns the empty
  slice as soon as the header's uncompressed size is 0, without looking at the chunks.
  The bundle below has one chunk with stored compressed size 5 and uncompressed target 0,
  and \<open>ReadFull\<close> succeeds on it.
\<close>

theorem ReadFull_mismatch_counterexample:
  "OpenBundleFile (Some zero_size_file) None False = (None, Inr zero_size_bundle)
   \<and> Compressor (Header zero_size_bundle) = OodleCompressorNone
   \<and> CompressedChunkSizes zero_size_bundle ! 0 = 5
   \<and> GetLastChunkUncompressedSize (Header zero_size_bundle) = 0
   \<and> ReadFull no_oodle zero_size_bundle = (Inr [], zero_size_bundle)"
  by code_simp

text \<open>
  C3, amended. For any sequence of byte chunks laid out as a bundle with compressor NONE
  (after the header and the chunk-size table, which end below \<open>2^31\<close> bytes, the
  file holds the chunks in order; the header's uncompressed size is the sum of the
  lengths, below \<open>2^31\<close>; the stored compressed sizes are the lengths; every chunk
  but the last has the length of the header's chunk size), \<open>ReadFull\<close> returns exactly
  the concatenation of the chunks. And on an open NONE bundle with an empty cache whose
  uncompressed size is not 0, if for some chunk the stored compressed size differs from
  its uncompressed target, and the uncompressed size plus either target (the chunk size,
  the last chunk's size) stays below \<open>2^31\<close> so that the \<open>int32\<close> output offset
  cannot wrap, \<open>ReadFull\<close> returns an error, not data and not a panic.
\<close>

theorem ReadFull_none_bundle:
  "(File b = Some (table @ concat chunks)
      \<and> length table = BundleHeaderSize + 4 * length chunks
      \<and> cachedContent b = None
      \<and> Compressor (Header b) = OodleCompressorNone
      \<and> BundleHeaderSize + 4 * length chunks < 2 ^ 31
      \<and> ChunkCount (Header b) = of_nat (length chunks)
      \<and> length (concat chunks) < 2 ^ 31
      \<and> UncompressedSize (Header b) = of_nat (length (concat chunks))
      \<and> CompressedChunkSizes b = map (\<lambda>c. of_nat (length c)) chunks
      \<and> (\<forall>c \<in> set (butlast chunks). int (length c) = sint (ChunkSize (Header b)))
     \<longrightarrow> fst (ReadFull oodle b) = Inr (concat chunks))
   \<and> (File b \<noteq> None \<and> cachedContent b = None
      \<and> Compressor (Header b) = OodleCompressorNone
      \<and> UncompressedSize (Header b) \<noteq> 0
      \<and> int i < sint (ChunkCount (Header b))
      \<and> CompressedChunkSizes b ! i
           \<noteq> (if (of_nat i :: i32) = ChunkCount (Header b) - 1
               then GetLastChunkUncompressedSize (Header b) else ChunkSize (Header b))
      \<and> sint (UncompressedSize (Header b)) + sint (ChunkSize (Header b)) < 2 ^ 31
      \<and> sint (UncompressedSize (Header b)) + sint (GetLastChunkUncompressedSize (Header b)) < 2 ^ 31
     \<longrightarrow> (\<exists>e. fst (ReadFull oodle b) = Inl e \<and> e \<noteq> RuntimePanic))"
proof (intro conjI impI)
  assume h: "File b = Some (table @ concat chunks)
      \<and> length table = BundleHeaderSize + 4 * length chunks
      \<and> cachedContent b = None
      \<and> Compressor (Header b) = OodleCompressorNone
      \<and> BundleHeaderSize + 4 * length chunks < 2 ^ 31
      \<and> ChunkCount (Header b) = of_nat (length chunks)
      \<and> length (concat chunks) < 2 ^ 31
      \<and> UncompressedSize (Header b) = of_nat (length (concat chunks))
      \<and> CompressedChunkSizes b = map (\<lambda>c. of_nat (length c)) chunks
      \<and> (\<forall>c \<in> set (butlast chunks). int (length c) = sint (ChunkSize (Header b)))"
  show "fst (ReadFull oodle b) = Inr (concat chunks)"
  proof (cases "length (concat chunks) = 0")
    case True
    with h show ?thesis by (simp add: ReadFull_def)
  next
    case False
    then have ne: "chunks \<noteq> []" by auto
    have n: "length chunks < 2 ^ 31"
      using h by simp
    have su: "sint (UncompressedSize (Header b)) = int (length (concat chunks))"
      using h by (simp add: sint_of_nat_i32)
    have sc: "sint (ChunkCount (Header b)) = int (length chunks)"
      using h n by (simp add: sint_of_nat_i32)
    have unz: "UncompressedSize (Header b) \<noteq> 0"
      using su False by auto
    have cnz: "ChunkCount (Header b) \<noteq> 0"
      using sc ne by auto
    have "sint (of_nat (BundleHeaderSize + 4 * length chunks) :: i32)
            = int (BundleHeaderSize + 4 * length chunks)"
      using h by (intro sint_of_nat_i32) simp
    then have first: "sint (of_nat BundleHeaderSize + ChunkCount (Header b) * 4 :: i32)
                 = int (length table)"
      using h by (simp add: mult.commute)
    have loop: "ReadFull_loop oodle (table @ concat chunks) (Header b)
                 (map (\<lambda>c. of_nat (length c)) chunks) 0
                 (int (length table) + int (length (concat (take 0 chunks))))
                 (of_nat (length (concat (take 0 chunks))))
                 (concat (take 0 chunks)
                    @ replicate (length (concat chunks) - length (concat (take 0 chunks))) 0)
               = Inr (concat chunks)"
      using h n by (intro ReadFull_loop_none) auto
    from h su sc unz cnz first loop False show ?thesis
      by (simp add: ReadFull_def Let_def)
  qed
next
  assume h: "File b \<noteq> None \<and> cachedContent b = None
      \<and> Compressor (Header b) = OodleCompressorNone
      \<and> UncompressedSize (Header b) \<noteq> 0
      \<and> int i < sint (ChunkCount (Header b))
      \<and> CompressedChunkSizes b ! i
           \<noteq> (if (of_nat i :: i32) = ChunkCount (Header b) - 1
               then GetLastChunkUncompressedSize (Header b) else ChunkSize (Header b))
      \<and> sint (UncompressedSize (Header b)) + sint (ChunkSize (Header b)) < 2 ^ 31
      \<and> sint (UncompressedSize (Header b)) + sint (GetLastChunkUncompressedSize (Header b)) < 2 ^ 31"
  then show "\<exists>e. fst (ReadFull oodle b) = Inl e \<and> e \<noteq> RuntimePanic"
    by (rule ReadFull_mismatch_error)
qed

theorem ReadFull_none_bundle_witness:
  "fst (ReadFull no_oodle (scenario3_bundle 56))
     = Inr (concat [replicate 100 0x41, replicate 50 0x42])
   \<and> CompressedChunkSizes mismatched_bundle ! 1 = 40
   \<and> GetLastChunkUncompressedSize (Header mismatched_bundle) = 50
   \<and> fst (ReadFull no_oodle mismatched_bundle) = Inl NoneSizeMismatch"
proof -
  have a1: "File (scenario3_bundle 56)
             = Some (take 68 (scenario3_file 56) @ concat [replicate 100 0x41, replicate 50 0x42])"
    by code_simp
  have a2: "length (take 68 (scenario3_file 56))
          = BundleHeaderSize + 4 * length [replicate 100 (0x41 :: byte), replicate 50 0x42]"
    by code_simp
  have a3: "cachedContent (scenario3_bundle 56) = None
      \<and> Compressor (Header (scenario3_bundle 56)) = OodleCompressorNone
      \<and> ChunkCount (Header (scenario3_bundle 56))
          = of_nat (length [replicate 100 (0x41 :: byte), replicate 50 0x42])
      \<and> UncompressedSize (Header (scenario3_bundle 56))
          = of_nat (length (concat [replicate 100 (0x41 :: byte), replicate 50 0x42]))
      \<and> CompressedChunkSizes (scenario3_bundle 56)
          = map (\<lambda>c. of_nat (length c)) [replicate 100 (0x41 :: byte), replicate 50 0x42]"
    by (simp add: scenario3_bundle_def OodleCompressorNone_def)
  have a4: "BundleHeaderSize + 4 * length [replicate 100 (0x41 :: byte), replicate 50 0x42] < 2 ^ 31
      \<and> length (concat [replicate 100 (0x41 :: byte), replicate 50 0x42]) < 2 ^ 31
      \<and> (\<forall>c \<in> set (butlast [replicate 100 (0x41 :: byte), replicate 50 0x42]).
            int (length c) = sint (ChunkSize (Header (scenario3_bundle 56))))"
    by (simp add: scenario3_bundle_def BundleHeaderSize_def)
  have b: "File mismatched_bundle \<noteq> None \<and> cachedContent mismatched_bundle = None
      \<and> Compressor (Header mismatched_bundle) = OodleCompressorNone
      \<and> UncompressedSize (Header mismatched_bundle) \<noteq> 0
      \<and> int 1 < sint (ChunkCount (Header mismatched_bundle))
      \<and> CompressedChunkSizes mismatched_bundle ! 1
           \<noteq> (if (of_nat 1 :: i32) = ChunkCount (Header mismatched_bundle) - 1
               then GetLastChunkUncompressedSize (Header mismatched_bundle)
               else ChunkSize (Header mismatched_bundle))
      \<and> sint (UncompressedSize (Header mismatched_bundle))
            + sint (ChunkSize (Header mismatched_bundle)) < 2 ^ 31
      \<and> sint (UncompressedSize (Header mismatched_bundle))
            + sint (GetLastChunkUncompressedSize (Header mismatched_bundle)) < 2 ^ 31"
    by (simp add: mismatched_bundle_def scenario3_bundle_def OodleCompressorNone_def
        GetLastChunkUncompressedSize_def)
  have c: "CompressedChunkSizes mismatched_bundle ! 1 = 40
           \<and> GetLastChunkUncompressedSize (Header mismatched_bundle) = 50
           \<and> fst (ReadFull no_oodle mismatched_bundle) = Inl NoneSizeMismatch"
    by code_simp
  have r1: "fst (ReadFull no_oodle (scenario3_bundle 56))
              = Inr (concat [replicate 100 0x41, replicate 50 0x42])"
    using ReadFull_none_bundle [where b = "scenario3_bundle 56" and oodle = no_oodle
        and table = "take 68 (scenario3_file 56)"
        and chunks = "[replicate 100 0x41, replicate 50 0x42]"] a1 a2 a3 a4
    by blast
  have r2: "\<exists>e. fst (ReadFull no_oodle mismatched_bundle) = Inl e \<and> e \<noteq> RuntimePanic"
    using ReadFull_none_bundle [where b = mismatched_bundle and oodle = no_oodle and i = 1] b
    by blast
  show ?thesis using r1 r2 c by blast
qed

text \<open>
  C5, as the claim states it, fails in its second half: with size 0 a negative offset is
  no error, and an offset and size whose \<open>int32\<close> sum wraps pass the bounds check and
  end in a slicing panic instead of a returned error.
\<close>

theorem ReadAt_bounds_counterexample:
  "ReadAt no_oodle (scenario3_bundle 56) (- 1) 0 = (Inr [], scenario3_bundle 56)
   \<and> fst (ReadAt no_oodle (scenario3_bundle 56) 0x7FFFFFFF 1) = Inl RuntimePanic"
  by code_simp

text \<open>
  C5, amended. For every open bundle whose cache, if filled, has the length of the
  uncompressed size: when \<open>0 \<le> offset\<close>, \<open>0 < size\<close> and \<open>offset + size\<close> is at most the
  uncompressed size, and \<open>ReadFull\<close> returns data, \<open>ReadAt\<close> returns the \<open>size\<close> bytes
  of that data from \<open>offset\<close> on; when the size is not 0 and the offset is negative, or
  \<open>offset + size\<close> fits \<open>int32\<close> and exceeds the uncompressed size, \<open>ReadAt\<close> returns
  an error and leaves the bundle as it is.
\<close>

theorem ReadAt_window:
  assumes "File b \<noteq> None" and "cache_ok b"
  shows "(0 \<le> sint offsetInBundle \<and> 0 < sint sizeInBundle
          \<and> sint offsetInBundle + sint sizeInBundle \<le> sint (UncompressedSize (Header b))
          \<and> ReadFull oodle b = (Inr fullData, b')
          \<longrightarrow> ReadAt oodle b offsetInBundle sizeInBundle
                = (Inr (take (nat (sint sizeInBundle)) (drop (nat (sint offsetInBundle)) fullData)), b'))
       \<and> (sizeInBundle \<noteq> 0
          \<and> (sint offsetInBundle < 0
              \<or> (sint offsetInBundle + sint sizeInBundle < 2 ^ 31
                  \<and> sint (UncompressedSize (Header b)) < sint offsetInBundle + sint sizeInBundle))
          \<longrightarrow> ReadAt oodle b offsetInBundle sizeInBundle = (Inl InvalidReadSize, b)
              \<or> ReadAt oodle b offsetInBundle sizeInBundle = (Inl ReadOutOfBounds, b))"
proof (intro conjI impI)
  assume h: "0 \<le> sint offsetInBundle \<and> 0 < sint sizeInBundle
          \<and> sint offsetInBundle + sint sizeInBundle \<le> sint (UncompressedSize (Header b))
          \<and> ReadFull oodle b = (Inr fullData, b')"
  have up: "sint (UncompressedSize (Header b)) < 2 ^ 31"
    using sint_lt [of "UncompressedSize (Header b)"] by simp
  have sum: "sint (offsetInBundle + sizeInBundle) = sint offsetInBundle + sint sizeInBundle"
    using h up by (intro sint_add_i32) auto
  have len: "int (length fullData) = sint (UncompressedSize (Header b))"
    using ReadFull_length [of oodle b fullData b'] h assms by simp
  have nz: "sizeInBundle \<noteq> 0" using h by auto
  have cut: "nat (sint offsetInBundle + sint sizeInBundle) - nat (sint offsetInBundle)
               = nat (sint sizeInBundle)"
    using h by linarith
  show "ReadAt oodle b offsetInBundle sizeInBundle
          = (Inr (take (nat (sint sizeInBundle)) (drop (nat (sint offsetInBundle)) fullData)), b')"
    using assms h nz sum len cut by (auto simp: ReadAt_def split: option.splits)
next
  assume h: "sizeInBundle \<noteq> 0
          \<and> (sint offsetInBundle < 0
              \<or> (sint offsetInBundle + sint sizeInBundle < 2 ^ 31
                  \<and> sint (UncompressedSize (Header b)) < sint offsetInBundle + sint sizeInBundle))"
  show "ReadAt oodle b offsetInBundle sizeInBundle = (Inl InvalidReadSize, b)
          \<or> ReadAt oodle b offsetInBundle sizeInBundle = (Inl ReadOutOfBounds, b)"
  proof (cases "sint sizeInBundle < 0 \<or> sint offsetInBundle < 0")
    case True
    with assms h show ?thesis by (auto simp: ReadAt_def split: option.splits)
  next
    case False
    have lo: "- (2 ^ 31) \<le> sint offsetInBundle + sint sizeInBundle" using False by simp
    have "sint (offsetInBundle + sizeInBundle) = sint offsetInBundle + sint sizeInBundle"
      using h False lo by (intro sint_add_i32) auto
    with assms h False show ?thesis by (auto simp: ReadAt_def split: option.splits)
  qed
qed

theorem ReadAt_window_witness:
  "File (scenario3_bundle 56) \<noteq> None \<and> cache_ok (scenario3_bundle 56)
   \<and> ReadAt no_oodle (scenario3_bundle 56) 90 20
       = (Inr (replicate 10 0x41 @ replicate 10 0x42), snd (ReadFull no_oodle (scenario3_bundle 56)))
   \<and> ReadAt no_oodle (scenario3_bundle 56) (- 1) 5 = (Inl ReadOutOfBounds, scenario3_bundle 56)
   \<and> ReadAt no_oodle (scenario3_bundle 56) 140 20 = (Inl ReadOutOfBounds, scenario3_bundle 56)"
proof -
  have f: "File (scenario3_bundle 56) \<noteq> None" by (simp add: scenario3_bundle_def)
  have u: "UncompressedSize (Header (scenario3_bundle 56)) = 150" by (simp add: scenario3_bundle_def)
  have rf: "ReadFull no_oodle (scenario3_bundle 56)
              = (Inr (replicate 100 0x41 @ replicate 50 0x42), snd (ReadFull no_oodle (scenario3_bundle 56)))"
    using scenario3_ReadFull by (metis prod.collapse)
  have a: "ReadAt no_oodle (scenario3_bundle 56) 90 20
       = (Inr (replicate 10 0x41 @ replicate 10 0x42), snd (ReadFull no_oodle (scenario3_bundle 56)))"
    using ReadAt_window [OF f cache_ok_scenario3, of 90 20 no_oodle
        "replicate 100 0x41 @ replicate 50 0x42" "snd (ReadFull no_oodle (scenario3_bundle 56))"] rf u
    by simp
  have b: "ReadAt no_oodle (scenario3_bundle 56) (- 1) 5 = (Inl ReadOutOfBounds, scenario3_bundle 56)"
    using ReadAt_window [OF f cache_ok_scenario3, of "- 1" 5 no_oodle] f
    by (auto simp: ReadAt_def split: option.splits)
  have c: "ReadAt no_oodle (scenario3_bundle 56) 140 20 = (Inl ReadOutOfBounds, scenario3_bundle 56)"
    using ReadAt_window [OF f cache_ok_scenario3, of 140 20 no_oodle] f u
    by (auto simp: ReadAt_def split: option.splits)
  show ?thesis using f cache_ok_scenario3 a b c by simp
qed

section \<open>NameHash\<close>

lemma NameHash_fnv_branch:
  assumes "Directories idx \<noteq> []" "PathHash_d (Directories idx ! 0) = 0x07E47507B4A92E53"
  shows "NameHash ToLower idx p = Inr (custom_fnv1a64_reference (strip_trailing_slash p))"
proof -
  have "fnv1a64Hash q = custom_fnv1a64_reference q" for q
    unfolding fnv1a64Hash_def Let_def fnv_fold_lower
    by (simp add: custom_fnv1a64_reference_def fnv1a64_standard_def
        strip_trailing_slash_def fnv1a64_step_def fnvPrime_def)
  then show ?thesis
    using assms by (simp add: NameHash_def Let_def strip_trailing_slash_def)
qed

lemma murmurHash64A_ignores_seed: "murmurHash64A data seed = murmurHash64A data seed'"
  by (simp add: murmurHash64A_def)

lemma NameHash_murmur_branch:
  "Directories idx \<noteq> [] \<Longrightarrow> PathHash_d (Directories idx ! 0) = 0xF42A94E69CFF42FE \<Longrightarrow>
   NameHash ToLower idx p
     = Inr (foldl (\<lambda>h c. (h * 0x100000001B3) XOR ucast c) 0xCBF29CE484222325
              (ToLower (strip_trailing_slash p)))"
  by (simp add: NameHash_def Let_def murmurHash64A_def strip_trailing_slash_def
      fnvPrime_def fnv_offset64_def)

lemma NameHash_unknown_magic:
  "Directories idx \<noteq> [] \<Longrightarrow> PathHash_d (Directories idx ! 0) \<noteq> 0xF42A94E69CFF42FE \<Longrightarrow>
   PathHash_d (Directories idx ! 0) \<noteq> 0x07E47507B4A92E53 \<Longrightarrow>
   NameHash ToLower idx p = Inl (UnknownNameHashAlgorithm (PathHash_d (Directories idx ! 0)))"
  by (simp add: NameHash_def Let_def)

text \<open>
  C1. Under the discriminator 0xF42A94E69CFF42FE the claim asks for canonical
  MurmurHash64A of the lowercased path with seed 0x1337B33F. The source's
  \<open>murmurHash64A\<close> is FNV-1 and ignores the seed: for the path \<open>a\<close> \<open>NameHash\<close>
  returns 0xAF63BD4C8601B7BE, the FNV-1 hash of \<open>a\<close>, where canonical MurmurHash64A
  gives 0xF8D232A19E90F23C.
\<close>

theorem NameHash_murmur_branch_is_fnv1:
  "NameHash ToLower_ascii murmur_index (bytes_of ''a'') = Inr 0xAF63BD4C8601B7BE
   \<and> MurmurHash64A_reference (ToLower_ascii (bytes_of ''a'')) 0x1337B33F = 0xF8D232A19E90F23C"
  by code_simp

text \<open>
  C6, as the claim states it, fails: \<open>NameHash\<close> strips one trailing slash, so a path
  that already ends in a slash and the same path with one more slash hash differently.
  Under the Murmur discriminator \<open>a/\<close> and \<open>a//\<close> differ; under the FNV discriminator,
  where \<open>fnv1a64Hash\<close> strips a second slash, \<open>a//\<close> and \<open>a///\<close> differ.
\<close>

theorem NameHash_trailing_slash_counterexample:
  "NameHash ToLower_ascii murmur_index (bytes_of ''a/'') = Inr 0xAF63BD4C8601B7BE
   \<and> NameHash ToLower_ascii murmur_index (bytes_of ''a/'' @ bytes_of ''/'') = Inr 0x08326707B4EB37F5
   \<and> NameHash ToLower_ascii fnv_index (bytes_of ''a//'') = Inr 0xE62EE2190475416A
   \<and> NameHash ToLower_ascii fnv_index (bytes_of ''a//'' @ bytes_of ''/'') = Inr 0x7335F5827EB771E7"
  by code_simp

text \<open>
  C6, amended. For every path that does not end in a slash, and under the FNV
  discriminator also for a path that ends in exactly one slash, \<open>NameHash\<close> of the path
  and of the path with a slash appended are equal, whatever the index.
\<close>

theorem NameHash_one_trailing_slash:
  assumes "p = [] \<or> last p \<noteq> 0x2F
           \<or> (PathHash_d (Directories idx ! 0) = 0x07E47507B4A92E53
               \<and> (butlast p = [] \<or> last (butlast p) \<noteq> 0x2F))"
  shows "NameHash ToLower idx (p @ [0x2F]) = NameHash ToLower idx p"
  using assms by (auto simp: NameHash_def fnv1a64Hash_def Let_def)

theorem NameHash_one_trailing_slash_witness:
  "NameHash ToLower_ascii fnv_index (bytes_of ''Data/UPPERCASE.DAT'' @ [0x2F])
     = NameHash ToLower_ascii fnv_index (bytes_of ''Data/UPPERCASE.DAT'')
   \<and> NameHash ToLower_ascii murmur_index (bytes_of ''Path/To/File.txt'' @ [0x2F])
     = NameHash ToLower_ascii murmur_index (bytes_of ''Path/To/File.txt'')
   \<and> NameHash ToLower_ascii fnv_index (bytes_of ''ROOT/SomethingElse/'' @ [0x2F])
     = NameHash ToLower_ascii fnv_index (bytes_of ''ROOT/SomethingElse/'')"
proof -
  have a: "last (bytes_of ''Data/UPPERCASE.DAT'') \<noteq> 0x2F"
    and b: "last (bytes_of ''Path/To/File.txt'') \<noteq> 0x2F"
    and c: "PathHash_d (Directories fnv_index ! 0) = 0x07E47507B4A92E53
            \<and> last (butlast (bytes_of ''ROOT/SomethingElse/'')) \<noteq> 0x2F"
    by (simp_all add: bytes_of_def fnv_index_def)
  show ?thesis
    using NameHash_one_trailing_slash [of "bytes_of ''Data/UPPERCASE.DAT''" fnv_index ToLower_ascii]
      NameHash_one_trailing_slash [of "bytes_of ''Path/To/File.txt''" murmur_index ToLower_ascii]
      NameHash_one_trailing_slash [of "bytes_of ''ROOT/SomethingElse/''" fnv_index ToLower_ascii]
      a b c
    by blast
qed

section \<open>ReadAt with size zero\<close>

text \<open>
  C10. For every open bundle and every offset, negative or beyond the uncompressed size
  included, \<open>ReadAt\<close> with size 0 succeeds with the empty slice and leaves the bundle as
  it is: the size is tested before the bounds.
\<close>

theorem ReadAt_zero_size_succeeds:
  "File b \<noteq> None \<Longrightarrow> ReadAt oodle b offsetInBundle 0 = (Inr [], b)"
  by (auto simp: ReadAt_def split: option.splits)

theorem ReadAt_zero_size_succeeds_witness:
  "File (scenario3_bundle 56) \<noteq> None
   \<and> ReadAt no_oodle (scenario3_bundle 56) (- 7) 0 = (Inr [], scenario3_bundle 56)
   \<and> ReadAt no_oodle (scenario3_bundle 56) 1000 0 = (Inr [], scenario3_bundle 56)"
proof -
  have h: "File (scenario3_bundle 56) \<noteq> None" by (simp add: scenario3_bundle_def)
  show ?thesis
    using h ReadAt_zero_size_succeeds [OF h, of no_oodle "- 7"]
      ReadAt_zero_size_succeeds [OF h, of no_oodle 1000]
    by simp
qed

section \<open>GetFileByPath\<close>









section \<open>ParsePaths\<close>

lemma fnv_index_parse_result: "fst (ParsePaths ToLower_ascii fnv_index) = (1, None)"
  by code_simp

text \<open>
  C7. After a call of \<open>ParsePaths\<close> that returns no error, a second call returns the
  failed count 0 and no error and leaves the whole index (every file record's path and
  every table) as the first call left it.
\<close>

theorem ParsePaths_idempotent:
  "ParsePaths ToLower idx = ((failed, None), idx') \<Longrightarrow>
   ParsePaths ToLower idx' = ((0, None), idx')"
  by (auto simp: ParsePaths_def split: if_splits prod.splits option.splits)

theorem ParsePaths_idempotent_witness:
  "fst (ParsePaths ToLower_ascii fnv_index) = (1, None)
   \<and> ParsePaths ToLower_ascii (snd (ParsePaths ToLower_ascii fnv_index))
       = ((0, None), snd (ParsePaths ToLower_ascii fnv_index))"
proof -
  have h: "ParsePaths ToLower_ascii fnv_index
             = ((1, None), snd (ParsePaths ToLower_ascii fnv_index))"
    using fnv_index_parse_result by (metis prod.collapse)
  show ?thesis
    using ParsePaths_idempotent [OF h] fnv_index_parse_result by simp
qed









end
